theory Spec2Isabelle
  imports Main "HOL-Library.Word" "HOL-Library.Signed_Division"
begin

unbundle bit_operations_syntax

section \<open>ptgen: partition table generator (src/ptgen.c)\<close>

text \<open>
  A shallow embedding of the layout-and-serialisation core of \<^verbatim>\<open>ptgen.c\<close>:
  \<^verbatim>\<open>to_chs\<close>, \<^verbatim>\<open>round_to_cyl\<close>, \<^verbatim>\<open>round_to_kb\<close>, \<^verbatim>\<open>gpt_crc32\<close>,
  \<^verbatim>\<open>init_utf16\<close>, \<^verbatim>\<open>gen_ptable\<close>, \<^verbatim>\<open>gen_gptable\<close> and the clamping of the active
  index in \<^verbatim>\<open>main\<close>.

  Conventions.
  \<^item> C integers are machine words of the width they have on an LP64 Linux host:
    \<^verbatim>\<open>int\<close>/\<^verbatim>\<open>unsigned\<close> are \<open>32 word\<close>, \<^verbatim>\<open>long\<close>, \<^verbatim>\<open>unsigned long\<close>,
    \<^verbatim>\<open>unsigned long long\<close> and \<^verbatim>\<open>uint64_t\<close> are \<open>64 word\<close>. Arithmetic wraps modulo
    the width; signed values are read with \<open>sint\<close>; a conversion to a wider type is
    \<open>scast\<close> from a signed and \<open>ucast\<close> from an unsigned source; a narrowing one is
    \<open>ucast\<close>. Signed overflow, which C leaves undefined, wraps as it does in the compiled
    program.
  \<^item> C's \<^verbatim>\<open>/\<close> and \<^verbatim>\<open>%\<close> on signed operands truncate towards zero (\<open>sdiv\<close>, \<open>smod\<close> on
    \<open>int\<close>). A division by zero traps; the model returns \<open>None\<close> or the error
    \<open>DivideByZero\<close> there.
  \<^item> The host is little-endian, so that \<^verbatim>\<open>cpu_to_le16/32/64\<close> are the identity and a
    stored integer is the list of its bytes, least significant first.
  \<^item> The global variables that \<^verbatim>\<open>main\<close> fills in are the record \<open>config\<close>; the global
    array \<^verbatim>\<open>parts\<close> together with the count \<^verbatim>\<open>nr\<close> is a list of \<open>partinfo\<close>.
    Fixed-size arrays are lists of that length.
\<close>

type_synonym u8 = "8 word"
type_synonym u16 = "16 word"
type_synonym u32 = "32 word"
type_synonym u64 = "64 word"

subsection \<open>Constants\<close>

type_synonym guid_t = "u8 list"

text \<open>\<^verbatim>\<open>GUID_INIT(a, b, c, d0, ..., d7)\<close>\<close>

definition GUID_INIT :: "u32 \<Rightarrow> u32 \<Rightarrow> u32 \<Rightarrow> u8 list \<Rightarrow> guid_t" where
  "GUID_INIT a b c d =
     [ucast (a AND 0xff), ucast (drop_bit 8 a AND 0xff),
      ucast (drop_bit 16 a AND 0xff), ucast (drop_bit 24 a AND 0xff),
      ucast (b AND 0xff), ucast (drop_bit 8 b AND 0xff),
      ucast (c AND 0xff), ucast (drop_bit 8 c AND 0xff)] @ d"

definition GUID_PARTITION_BIOS_BOOT :: guid_t where
  "GUID_PARTITION_BIOS_BOOT =
     GUID_INIT 0x21686148 0x6449 0x6E6F [0x74, 0x4E, 0x65, 0x65, 0x64, 0x45, 0x46, 0x49]"

definition GPT_SIGNATURE :: u64 where "GPT_SIGNATURE = 0x5452415020494645"
definition GPT_REVISION :: u32 where "GPT_REVISION = 0x00010000"

definition GPT_HEADER_SIZE :: nat where "GPT_HEADER_SIZE = 92"
definition GPT_ENTRY_SIZE :: nat where "GPT_ENTRY_SIZE = 128"
definition GPT_ENTRY_MAX :: nat where "GPT_ENTRY_MAX = 128"
definition GPT_ENTRY_NAME_SIZE :: nat where "GPT_ENTRY_NAME_SIZE = 72"
definition DISK_SECTOR_SIZE :: nat where "DISK_SECTOR_SIZE = 512"

text \<open>\<^verbatim>\<open>GPT_SIZE\<close> is \<^verbatim>\<open>GPT_ENTRY_SIZE * GPT_ENTRY_MAX / DISK_SECTOR_SIZE\<close>, written without
  parentheses; at each of its uses in the source the expansion still evaluates to 32.\<close>

definition GPT_SIZE :: nat where
  "GPT_SIZE = GPT_ENTRY_SIZE * GPT_ENTRY_MAX div DISK_SECTOR_SIZE"

definition GPT_ATTR_PLAT_REQUIRED :: u64 where "GPT_ATTR_PLAT_REQUIRED = push_bit 0 1"
definition GPT_ATTR_EFI_IGNORE :: u64 where "GPT_ATTR_EFI_IGNORE = push_bit 1 1"
definition GPT_ATTR_LEGACY_BOOT :: u64 where "GPT_ATTR_LEGACY_BOOT = push_bit 2 1"

definition GPT_HEADER_SECTOR :: u64 where "GPT_HEADER_SECTOR = 1"
definition GPT_FIRST_ENTRY_SECTOR :: u64 where "GPT_FIRST_ENTRY_SECTOR = 2"

definition MBR_ENTRY_MAX :: nat where "MBR_ENTRY_MAX = 4"
definition MBR_DISK_SIGNATURE_OFFSET :: u64 where "MBR_DISK_SIGNATURE_OFFSET = 440"
definition MBR_PARTITION_ENTRY_OFFSET :: u64 where "MBR_PARTITION_ENTRY_OFFSET = 446"
definition MBR_BOOT_SIGNATURE_OFFSET :: u64 where "MBR_BOOT_SIGNATURE_OFFSET = 510"

subsection \<open>Data\<close>

text \<open>\<^verbatim>\<open>struct pte\<close>, the MBR partition table entry.\<close>

record pte =
  pte_active :: u8
  pte_chs_start :: "u8 list"
  pte_type :: u8
  pte_chs_end :: "u8 list"
  pte_start :: u32
  pte_length :: u32

text \<open>\<^verbatim>\<open>struct partinfo\<close>. \<open>part_start\<close> and \<open>part_size\<close> are in KByte, as \<^verbatim>\<open>to_kbytes\<close>
  returns them; \<open>part_name\<close> is \<open>None\<close> for the null pointer and otherwise the bytes of the
  C string before its terminating NUL.\<close>

record partinfo =
  part_actual_start :: u64
  part_start :: u64
  part_size :: u64
  part_type :: u32
  part_hybrid :: u32
  part_name :: "u8 list option"
  part_required :: u16
  part_has_guid :: bool
  part_guid :: guid_t
  part_gattr :: u64

text \<open>\<^verbatim>\<open>struct gpth\<close>, the GPT header (packed, 92 bytes).\<close>

record gpth =
  gpth_signature :: u64
  gpth_revision :: u32
  gpth_size :: u32
  gpth_crc32 :: u32
  gpth_reserved :: u32
  gpth_self :: u64
  gpth_alternate :: u64
  gpth_first_usable :: u64
  gpth_last_usable :: u64
  gpth_disk_guid :: guid_t
  gpth_first_entry :: u64
  gpth_entry_num :: u32
  gpth_entry_size :: u32
  gpth_entry_crc32 :: u32

text \<open>\<^verbatim>\<open>struct gpte\<close>, the GPT entry (packed, 128 bytes). The 72 bytes of \<^verbatim>\<open>name\<close> are only
  ever accessed as 36 \<^verbatim>\<open>uint16_t\<close>, and are kept as such.\<close>

record gpte =
  gpte_type :: guid_t
  gpte_guid :: guid_t
  gpte_start :: u64
  gpte_end :: u64
  gpte_attr :: u64
  gpte_name :: "u16 list"

text \<open>The global configuration variables.\<close>

record config =
  active :: u32
  heads :: u32
  sectors :: u32
  kb_align :: u32
  ignore_null_sized_partition :: bool
  gpt_split_image :: bool
  gpt_alternate :: bool
  gpt_first_entry_sector :: u64
  gpt_last_usable_sector :: u64

text \<open>Every failing return of the two generators prints a diagnostic and yields \<^verbatim>\<open>-1\<close>;
  the constructors name the diagnostic: \<^verbatim>\<open>Invalid size in partition\<close>,
  \<^verbatim>\<open>Invalid start\<close>, \<^verbatim>\<open>ends after last usable sector\<close>, and \<^verbatim>\<open>Can't open output file\<close>
  or \<^verbatim>\<open>write failed\<close>. \<open>DivideByZero\<close> is the trap of an integer division by zero,
  \<open>StringOverrun\<close> a read beyond the terminating NUL of a name.\<close>

datatype error =
  InvalidPartition | OverlapError | OutOfSpace | IOError | DivideByZero | StringOverrun

subsection \<open>Signed division on \<^verbatim>\<open>long\<close>\<close>

definition sdiv64 :: "u64 \<Rightarrow> u64 \<Rightarrow> u64" where
  "sdiv64 a b = word_of_int (sint a sdiv sint b)"

definition smod64 :: "u64 \<Rightarrow> u64 \<Rightarrow> u64" where
  "smod64 a b = word_of_int (sint a smod sint b)"

subsection \<open>Geometry\<close>

text \<open>\<^verbatim>\<open>static void to_chs(long sect, unsigned char chs[3])\<close>: the three bytes written.\<close>

definition to_chs :: "config \<Rightarrow> u64 \<Rightarrow> u8 list option" where
  "to_chs cfg sect =
     (if sectors cfg = 0 \<or> heads cfg = 0 then None
      else
        let s = (ucast (smod64 sect (scast (sectors cfg)) + 1) :: u32);
            sect1 = sdiv64 sect (scast (sectors cfg));
            h = (ucast (smod64 sect1 (scast (heads cfg))) :: u32);
            sect2 = sdiv64 sect1 (scast (heads cfg));
            c = (ucast sect2 :: u32)
        in Some [ucast h, ucast (s OR (signed_drop_bit 2 c AND 0xC0)), ucast (c AND 0xFF)])"

text \<open>\<^verbatim>\<open>static inline unsigned long round_to_cyl(long sect)\<close>\<close>

definition round_to_cyl :: "config \<Rightarrow> u64 \<Rightarrow> u64 option" where
  "round_to_cyl cfg sect =
     (let cyl_size = heads cfg * sectors cfg
      in if cyl_size = 0 then None
         else Some (sect + scast cyl_size - smod64 sect (scast cyl_size)))"

text \<open>\<^verbatim>\<open>static inline unsigned long round_to_kb(long sect)\<close>; only called with
  \<^verbatim>\<open>kb_align != 0\<close>.\<close>

definition round_to_kb :: "config \<Rightarrow> u64 \<Rightarrow> u64" where
  "round_to_kb cfg sect =
     (sdiv64 (sect - 1) (scast (kb_align cfg)) + 1) * scast (kb_align cfg)"

subsection \<open>Output\<close>

text \<open>
  Neither generator reads anything back, so what it does to the file system is a fixed
  script of requests: open (create and truncate) a file, or write a block at an absolute
  offset of the file opened last. \<^verbatim>\<open>lseek\<close> is folded into the offset of the next write
  (its result is never checked). The environment decides which requests succeed;
  \<open>run_io\<close> performs the script up to the first request that fails, as the
  \<^verbatim>\<open>return ret\<close> or \<^verbatim>\<open>goto fail\<close> after each \<^verbatim>\<open>open\<close> and \<^verbatim>\<open>write\<close> does.
\<close>

datatype io_op = Open "u8 list" | Write u64 "u8 list"

fun run_io :: "(nat \<Rightarrow> bool) \<Rightarrow> nat \<Rightarrow> io_op list \<Rightarrow> error option \<times> io_op list" where
  "run_io ok k [] = (None, [])"
| "run_io ok k (x # xs) =
     (if ok k then (case run_io ok (Suc k) xs of (r, done) \<Rightarrow> (r, x # done))
      else (Some IOError, []))"

text \<open>What a run leaves behind: the return value (\<open>None\<close> for 0), the numbers it has passed
  to \<^verbatim>\<open>printf\<close> for standard output, in order, and the requests performed.\<close>

record outcome =
  ret :: "error option"
  report :: "u64 list"
  performed :: "io_op list"

text \<open>Little-endian bytes of a word.\<close>

definition le_bytes :: "nat \<Rightarrow> 'a::len word \<Rightarrow> u8 list" where
  "le_bytes n w = map (\<lambda>k. ucast (drop_bit (8 * k) w)) [0..<n]"

definition pte_bytes :: "pte \<Rightarrow> u8 list" where
  "pte_bytes e =
     [pte_active e] @ pte_chs_start e @ [pte_type e] @ pte_chs_end e
     @ le_bytes 4 (pte_start e) @ le_bytes 4 (pte_length e)"

subsection \<open>\<^verbatim>\<open>gen_ptable\<close>\<close>

text \<open>
  The state of the loop of \<^verbatim>\<open>gen_ptable\<close>: the cursor \<^verbatim>\<open>sect\<close>, the table \<^verbatim>\<open>pte\<close>, the
  values of the locals \<^verbatim>\<open>start\<close> and \<^verbatim>\<open>len\<close> at the end of each iteration that lays a
  partition out (in order), and the numbers printed.
\<close>

record ptable_state =
  pt_sect :: u64
  pt_pte :: "pte list"
  pt_placed :: "(u64 \<times> u64) list"
  pt_report :: "u64 list"

definition zero_pte :: pte where
  "zero_pte = \<lparr>pte_active = 0, pte_chs_start = [0, 0, 0], pte_type = 0,
               pte_chs_end = [0, 0, 0], pte_start = 0, pte_length = 0\<rparr>"

definition ptable_init :: ptable_state where
  "ptable_init = \<lparr>pt_sect = 0, pt_pte = replicate MBR_ENTRY_MAX zero_pte,
                  pt_placed = [], pt_report = []\<rparr>"

text \<open>The first sector an iteration considers for its partition: the value of the local
  \<^verbatim>\<open>start\<close> after \<^verbatim>\<open>start = sect + sectors\<close>, one track past \<^verbatim>\<open>sect\<close>.\<close>

definition ptable_cursor :: "config \<Rightarrow> ptable_state \<Rightarrow> u64" where
  "ptable_cursor cfg st = pt_sect st + scast (sectors cfg)"

text \<open>One iteration of the \<^verbatim>\<open>for\<close> loop, for index \<open>i\<close> and \<^verbatim>\<open>parts[i] = p\<close>.
  \<^verbatim>\<open>main\<close> admits at most four partitions in MBR mode, so \<open>i < 4\<close>.\<close>

definition ptable_body :: "config \<Rightarrow> nat \<Rightarrow> partinfo \<Rightarrow> ptable_state \<Rightarrow> error + ptable_state" where
  "ptable_body cfg i p st =
     (if part_size p = 0 then
        (if ignore_null_sized_partition cfg then Inr st else Inl InvalidPartition)
      else
        let e1 = (pt_pte st ! i)
                   \<lparr>pte_active := (if of_nat (i + 1) = active cfg then 0x80 else 0),
                    pte_type := ucast (part_type p)\<rparr>;
            start0 = pt_sect st + scast (sectors cfg)
        in if part_start p \<noteq> 0 \<and> part_start p * 2 < start0 then Inl OverlapError
           else
             let start = (if part_start p \<noteq> 0 then part_start p * 2
                          else if kb_align cfg \<noteq> 0 then round_to_kb cfg start0
                          else start0);
                 sect0 = start + part_size p * 2
             in case (if kb_align cfg = 0 then round_to_cyl cfg sect0 else Some sect0) of
                  None \<Rightarrow> Inl DivideByZero
                | Some sect \<Rightarrow>
                    let len = sect - start
                    in (case to_chs cfg start of
                          None \<Rightarrow> Inl DivideByZero
                        | Some cs \<Rightarrow>
                           (case to_chs cfg (start + len - 1) of
                              None \<Rightarrow> Inl DivideByZero
                            | Some ce \<Rightarrow>
                                Inr \<lparr>pt_sect = sect,
                                     pt_pte = (pt_pte st)
                                       [i := e1\<lparr>pte_start := ucast start, pte_length := ucast len,
                                                pte_chs_start := cs, pte_chs_end := ce\<rparr>],
                                     pt_placed = pt_placed st @ [(start, len)],
                                     pt_report = pt_report st
                                       @ [start * of_nat DISK_SECTOR_SIZE,
                                          len * of_nat DISK_SECTOR_SIZE]\<rparr>)))"

fun ptable_loop :: "config \<Rightarrow> nat \<Rightarrow> partinfo list \<Rightarrow> ptable_state \<Rightarrow> error + ptable_state" where
  "ptable_loop cfg i [] st = Inr st"
| "ptable_loop cfg i (p # ps) st =
     (case ptable_body cfg i p st of
        Inl e \<Rightarrow> Inl e
      | Inr st' \<Rightarrow> ptable_loop cfg (Suc i) ps st')"

text \<open>The numbers the loop has printed when it is left, at its end or by the \<^verbatim>\<open>return\<close> of
  a failing iteration: the two \<^verbatim>\<open>printf\<close> are the last statements of the body, and a
  failing iteration prints on standard error only.\<close>

fun ptable_printed :: "config \<Rightarrow> nat \<Rightarrow> partinfo list \<Rightarrow> ptable_state \<Rightarrow> u64 list" where
  "ptable_printed cfg i [] st = pt_report st"
| "ptable_printed cfg i (p # ps) st =
     (case ptable_body cfg i p st of
        Inl e \<Rightarrow> pt_report st
      | Inr st' \<Rightarrow> ptable_printed cfg (Suc i) ps st')"

text \<open>The requests after the loop: the disk signature, the four entries, the boot
  signature.\<close>

definition mbr_script :: "u32 \<Rightarrow> pte list \<Rightarrow> io_op list" where
  "mbr_script signature tbl =
     [Write MBR_DISK_SIGNATURE_OFFSET (le_bytes 4 signature),
      Write MBR_PARTITION_ENTRY_OFFSET (concat (map pte_bytes tbl)),
      Write MBR_BOOT_SIGNATURE_OFFSET [0x55, 0xaa]]"

text \<open>\<^verbatim>\<open>static int gen_ptable(uint32_t signature, int nr)\<close>; \<open>ok\<close> tells which requests
  to the file system succeed.\<close>

definition gen_ptable :: "(nat \<Rightarrow> bool) \<Rightarrow> config \<Rightarrow> u8 list \<Rightarrow> u32 \<Rightarrow> partinfo list \<Rightarrow> outcome" where
  "gen_ptable ok cfg filename signature parts =
     (case ptable_loop cfg 0 parts ptable_init of
        Inl e \<Rightarrow> \<lparr>ret = Some e, report = ptable_printed cfg 0 parts ptable_init,
                   performed = []\<rparr>
      | Inr st \<Rightarrow>
          (case run_io ok 0 (Open filename # mbr_script signature (pt_pte st)) of
             (r, done) \<Rightarrow> \<lparr>ret = r, report = pt_report st, performed = done\<rparr>))"


subsection \<open>CRC\<close>

text \<open>
  Modelled from the spec: \<^verbatim>\<open>cyg_crc32_accumulate\<close> is declared in \<^verbatim>\<open>cyg_crc.h\<close> and
  defined outside \<^verbatim>\<open>ptgen.c\<close>. The spec calls it the standard reflected CRC32; seeding
  and final inversion are done by the caller \<^verbatim>\<open>gpt_crc32\<close>. It is written here with the
  table entry computed bit by bit (reflected polynomial \<open>0xEDB88320\<close>).
\<close>

fun crc32_shift :: "nat \<Rightarrow> u32 \<Rightarrow> u32" where
  "crc32_shift 0 c = c"
| "crc32_shift (Suc n) c =
     crc32_shift n (if c AND 1 = 0 then drop_bit 1 c else drop_bit 1 c XOR 0xEDB88320)"

fun cyg_crc32_accumulate :: "u32 \<Rightarrow> u8 list \<Rightarrow> u32" where
  "cyg_crc32_accumulate crc [] = crc"
| "cyg_crc32_accumulate crc (b # bs) =
     cyg_crc32_accumulate (crc32_shift 8 ((crc XOR ucast b) AND 0xff) XOR drop_bit 8 crc) bs"

text \<open>\<^verbatim>\<open>static inline unsigned long gpt_crc32(void *buf, unsigned long len)\<close>, on the
  \<^verbatim>\<open>len\<close> bytes at \<^verbatim>\<open>buf\<close>. \<^verbatim>\<open>~0L\<close> is a \<^verbatim>\<open>long\<close>: it is cut to 32 bits as the seed,
  and the exclusive-or with it is done on 64 bits.\<close>

definition gpt_crc32 :: "u8 list \<Rightarrow> u64" where
  "gpt_crc32 buf = ucast (cyg_crc32_accumulate (ucast (NOT 0 :: u64)) buf) XOR NOT 0"

subsection \<open>Names\<close>

text \<open>\<^verbatim>\<open>str[n]\<close> for a C string whose bytes before the NUL are \<open>str\<close>: the NUL itself at
  \<open>length str\<close>, nothing beyond it.\<close>

definition str_at :: "u8 list \<Rightarrow> nat \<Rightarrow> u8 option" where
  "str_at str n =
     (if n < length str then Some (str ! n) else if n = length str then Some 0 else None)"

text \<open>The loop of \<^verbatim>\<open>init_utf16(char *str, uint16_t *buf, unsigned bufsize)\<close>, from the
  values \<open>i\<close> and \<open>n\<close> of its two counters.\<close>

function init_utf16_loop :: "u8 list \<Rightarrow> nat \<Rightarrow> nat \<Rightarrow> nat \<Rightarrow> u16 list \<Rightarrow> u16 list option" where
  "init_utf16_loop str bufsize i n buf =
     (if i < bufsize then
        (case str_at str n of
           None \<Rightarrow> None
         | Some c \<Rightarrow>
             if c = 0x00 then Some (buf[i := 0x00])
             else if c AND 0x80 = 0x00 then
               init_utf16_loop str bufsize (i + 1) (n + 1) (buf[i := ucast c])
             else if c AND 0xE0 = 0xC0 then
               (case str_at str (n + 1) of
                  None \<Rightarrow> None
                | Some c1 \<Rightarrow>
                    init_utf16_loop str bufsize (i + 1) (n + 2)
                      (buf[i := push_bit 6 (ucast (c AND 0x1F)) OR ucast (c1 AND 0x3F)]))
             else if c AND 0xF0 = 0xE0 then
               (case str_at str (n + 1) of
                  None \<Rightarrow> None
                | Some c1 \<Rightarrow>
                   (case str_at str (n + 2) of
                      None \<Rightarrow> None
                    | Some c2 \<Rightarrow>
                        init_utf16_loop str bufsize (i + 1) (n + 3)
                          (buf[i := push_bit 12 (ucast (c AND 0x0F))
                                    OR push_bit 6 (ucast (c1 AND 0x3F))
                                    OR ucast (c2 AND 0x3F)])))
             else init_utf16_loop str bufsize (i + 1) (n + 1) (buf[i := 0x3F]))
      else Some buf)"
  by pat_completeness auto
termination
  by (relation "measure (\<lambda>(str, bufsize, i, n, buf). bufsize - i)") auto

declare init_utf16_loop.simps [simp del]

definition init_utf16 :: "u8 list \<Rightarrow> u16 list \<Rightarrow> nat \<Rightarrow> u16 list option" where
  "init_utf16 str buf bufsize = init_utf16_loop str bufsize 0 0 buf"

subsection \<open>Serialisation of the GPT records\<close>

definition gpth_bytes :: "gpth \<Rightarrow> u8 list" where
  "gpth_bytes h =
     le_bytes 8 (gpth_signature h) @ le_bytes 4 (gpth_revision h) @ le_bytes 4 (gpth_size h)
     @ le_bytes 4 (gpth_crc32 h) @ le_bytes 4 (gpth_reserved h)
     @ le_bytes 8 (gpth_self h) @ le_bytes 8 (gpth_alternate h)
     @ le_bytes 8 (gpth_first_usable h) @ le_bytes 8 (gpth_last_usable h)
     @ gpth_disk_guid h
     @ le_bytes 8 (gpth_first_entry h) @ le_bytes 4 (gpth_entry_num h)
     @ le_bytes 4 (gpth_entry_size h) @ le_bytes 4 (gpth_entry_crc32 h)"

definition gpte_bytes :: "gpte \<Rightarrow> u8 list" where
  "gpte_bytes e =
     gpte_type e @ gpte_guid e
     @ le_bytes 8 (gpte_start e) @ le_bytes 8 (gpte_end e) @ le_bytes 8 (gpte_attr e)
     @ concat (map (le_bytes 2) (gpte_name e))"

definition gpte_array_bytes :: "gpte list \<Rightarrow> u8 list" where
  "gpte_array_bytes tbl = concat (map gpte_bytes tbl)"

subsection \<open>\<^verbatim>\<open>gen_gptable\<close>\<close>

text \<open>
  The state of the loop of \<^verbatim>\<open>gen_gptable\<close>: the cursor \<^verbatim>\<open>sect\<close>, the global \<^verbatim>\<open>parts\<close>
  (whose \<^verbatim>\<open>actual_start\<close> the loop sets), the entry array \<^verbatim>\<open>gpte\<close>, the MBR table
  \<^verbatim>\<open>pte\<close>, the next hybrid slot \<^verbatim>\<open>pmbr\<close>, and the numbers printed.
\<close>

record gptable_state =
  gp_sect :: u64
  gp_parts :: "partinfo list"
  gp_gpte :: "gpte list"
  gp_pte :: "pte list"
  gp_pmbr :: nat
  gp_report :: "u64 list"

definition zero_guid :: guid_t where
  "zero_guid = replicate 16 0"

definition zero_gpte :: gpte where
  "zero_gpte = \<lparr>gpte_type = zero_guid, gpte_guid = zero_guid, gpte_start = 0, gpte_end = 0,
                gpte_attr = 0, gpte_name = replicate (GPT_ENTRY_NAME_SIZE div 2) 0\<rparr>"

definition gptable_init :: "config \<Rightarrow> partinfo list \<Rightarrow> gptable_state" where
  "gptable_init cfg parts =
     \<lparr>gp_sect = of_nat GPT_SIZE + gpt_first_entry_sector cfg,
      gp_parts = parts,
      gp_gpte = replicate GPT_ENTRY_MAX zero_gpte,
      gp_pte = replicate MBR_ENTRY_MAX zero_pte,
      gp_pmbr = 1,
      gp_report = []\<rparr>"

text \<open>\<^verbatim>\<open>guid.b[sizeof(guid_t) - 1] += k\<close>\<close>

definition guid_add_last :: "guid_t \<Rightarrow> nat \<Rightarrow> guid_t" where
  "guid_add_last g k = g[15 := g ! 15 + of_nat k]"

text \<open>The hybrid branch of the loop body. The two CHS fields are written to
  \<^verbatim>\<open>pte[1]\<close>, as the source has it.\<close>

definition gptable_hybrid ::
  "config \<Rightarrow> nat \<Rightarrow> partinfo \<Rightarrow> u64 \<Rightarrow> u64 \<Rightarrow> pte list \<times> nat \<Rightarrow> (pte list \<times> nat) option" where
  "gptable_hybrid cfg i p start sect tp =
     (case tp of (tbl, pmbr) \<Rightarrow>
        if part_hybrid p \<noteq> 0 \<and> pmbr < MBR_ENTRY_MAX then
          let tbl1 = tbl[pmbr := (tbl ! pmbr)
                         \<lparr>pte_active := (if of_nat (i + 1) = active cfg then 0x80 else 0),
                          pte_type := ucast (part_type p),
                          pte_start := ucast start,
                          pte_length := ucast (sect - start)\<rparr>]
          in (case to_chs cfg start of
                None \<Rightarrow> None
              | Some cs \<Rightarrow>
                 (case to_chs cfg (sect - 1) of
                    None \<Rightarrow> None
                  | Some ce \<Rightarrow>
                      Some (tbl1[1 := (tbl1 ! 1)\<lparr>pte_chs_start := cs, pte_chs_end := ce\<rparr>],
                            pmbr + 1)))
        else Some (tbl, pmbr))"

text \<open>One iteration of the \<^verbatim>\<open>for\<close> loop, for index \<open>i\<close> and \<^verbatim>\<open>parts[i] = p\<close>.
  \<^verbatim>\<open>main\<close> admits at most 128 partitions, so \<open>i < 128\<close>.\<close>

definition gptable_body ::
  "config \<Rightarrow> guid_t \<Rightarrow> nat \<Rightarrow> partinfo \<Rightarrow> gptable_state \<Rightarrow> error + gptable_state" where
  "gptable_body cfg guid i p st =
     (if part_size p = 0 then
        (if ignore_null_sized_partition cfg then Inr st else Inl InvalidPartition)
      else
        let start0 = gp_sect st
        in if part_start p \<noteq> 0 \<and> part_start p * 2 < start0 then Inl OverlapError
           else
             let start = (if part_start p \<noteq> 0 then part_start p * 2
                          else if kb_align cfg \<noteq> 0 then round_to_kb cfg start0
                          else start0)
             in if gpt_last_usable_sector cfg > 0
                   \<and> start + part_size p * 2 > gpt_last_usable_sector cfg + 1
                then Inl OutOfSpace
                else
                  let sect = start + part_size p * 2;
                      e1 = (gp_gpte st ! i)
                             \<lparr>gpte_start := start, gpte_end := sect - 1,
                              gpte_guid := guid_add_last guid (i + 1),
                              gpte_type := part_guid p\<rparr>
                  in (case gptable_hybrid cfg i p start sect (gp_pte st, gp_pmbr st) of
                        None \<Rightarrow> Inl DivideByZero
                      | Some (tbl, pmbr) \<Rightarrow>
                         (case (case part_name p of
                                  None \<Rightarrow> Some (gpte_name e1)
                                | Some str \<Rightarrow>
                                    init_utf16 str (gpte_name e1) (GPT_ENTRY_NAME_SIZE div 2)) of
                            None \<Rightarrow> Inl StringOverrun
                          | Some nm \<Rightarrow>
                              let a0 = part_gattr p;
                                  a1 = (if (of_nat (i + 1) :: u32) = active cfg
                                        then a0 OR GPT_ATTR_LEGACY_BOOT else a0);
                                  a2 = (if part_required p \<noteq> 0
                                        then a1 OR GPT_ATTR_PLAT_REQUIRED else a1)
                              in Inr \<lparr>gp_sect = sect,
                                      gp_parts = (gp_parts st)[i := p\<lparr>part_actual_start := start\<rparr>],
                                      gp_gpte = (gp_gpte st)
                                        [i := e1\<lparr>gpte_attr := a2, gpte_name := nm\<rparr>],
                                      gp_pte = tbl,
                                      gp_pmbr = pmbr,
                                      gp_report = gp_report st
                                        @ [start * of_nat DISK_SECTOR_SIZE,
                                           (sect - start) * of_nat DISK_SECTOR_SIZE]\<rparr>)))"

fun gptable_loop ::
  "config \<Rightarrow> guid_t \<Rightarrow> nat \<Rightarrow> partinfo list \<Rightarrow> gptable_state \<Rightarrow> error + gptable_state" where
  "gptable_loop cfg guid i [] st = Inr st"
| "gptable_loop cfg guid i (p # ps) st =
     (case gptable_body cfg guid i p st of
        Inl e \<Rightarrow> Inl e
      | Inr st' \<Rightarrow> gptable_loop cfg guid (Suc i) ps st')"

text \<open>The numbers the loop has printed when it is left, at its end or by the \<^verbatim>\<open>return\<close> of
  a failing iteration.\<close>

fun gptable_printed ::
  "config \<Rightarrow> guid_t \<Rightarrow> nat \<Rightarrow> partinfo list \<Rightarrow> gptable_state \<Rightarrow> u64 list" where
  "gptable_printed cfg guid i [] st = gp_report st"
| "gptable_printed cfg guid i (p # ps) st =
     (case gptable_body cfg guid i p st of
        Inl e \<Rightarrow> gp_report st
      | Inr st' \<Rightarrow> gptable_printed cfg guid (Suc i) ps st')"

text \<open>The filler in the last slot, after the loop. With no request at all, \<^verbatim>\<open>parts[0]\<close>
  is the zero-initialised global and the condition is false.\<close>

definition gptable_filler :: "config \<Rightarrow> guid_t \<Rightarrow> partinfo list \<Rightarrow> gpte list \<Rightarrow> gpte list" where
  "gptable_filler cfg guid ps tbl =
     (case ps of
        [] \<Rightarrow> tbl
      | p0 # _ \<Rightarrow>
          if part_start p0 \<noteq> 0
             \<and> part_actual_start p0 > gpt_first_entry_sector cfg + of_nat GPT_SIZE
          then tbl[GPT_ENTRY_MAX - 1 := (tbl ! (GPT_ENTRY_MAX - 1))
                     \<lparr>gpte_start := gpt_first_entry_sector cfg + of_nat GPT_SIZE,
                      gpte_end := part_actual_start p0 - 1,
                      gpte_type := GUID_PARTITION_BIOS_BOOT,
                      gpte_guid := guid_add_last guid GPT_ENTRY_MAX\<rparr>]
          else tbl)"


text \<open>What \<^verbatim>\<open>gen_gptable\<close> has computed when it opens its first file: the MBR table, the
  primary header, the entry array, the local \<^verbatim>\<open>end\<close> and the numbers printed.\<close>

record gpt_tables =
  tb_pte :: "pte list"
  tb_gpth :: gpth
  tb_gpte :: "gpte list"
  tb_end :: u64
  tb_report :: "u64 list"

definition gptable_build :: "config \<Rightarrow> guid_t \<Rightarrow> partinfo list \<Rightarrow> error + gpt_tables" where
  "gptable_build cfg guid parts =
     (case gptable_loop cfg guid 0 parts (gptable_init cfg parts) of
        Inl e \<Rightarrow> Inl e
      | Inr st \<Rightarrow>
          let tbl = gptable_filler cfg guid (gp_parts st) (gp_gpte st);
              last_usable = (if gpt_last_usable_sector cfg = 0 then gp_sect st - 1
                             else gpt_last_usable_sector cfg);
              end = last_usable + of_nat GPT_SIZE + 1
          in (case to_chs cfg GPT_HEADER_SECTOR of
                None \<Rightarrow> Inl DivideByZero
              | Some cs \<Rightarrow>
                 (case to_chs cfg end of
                    None \<Rightarrow> Inl DivideByZero
                  | Some ce \<Rightarrow>
                      let pte0 = (gp_pte st ! 0)
                                   \<lparr>pte_type := 0xEE,
                                    pte_start := ucast GPT_HEADER_SECTOR,
                                    pte_length := ucast (end + 1 - GPT_HEADER_SECTOR),
                                    pte_chs_start := cs, pte_chs_end := ce\<rparr>;
                          h0 = \<lparr>gpth_signature = GPT_SIGNATURE,
                                gpth_revision = GPT_REVISION,
                                gpth_size = of_nat GPT_HEADER_SIZE,
                                gpth_crc32 = 0,
                                gpth_reserved = 0,
                                gpth_self = GPT_HEADER_SECTOR,
                                gpth_alternate = end,
                                gpth_first_usable = gpt_first_entry_sector cfg + of_nat GPT_SIZE,
                                gpth_last_usable = last_usable,
                                gpth_disk_guid = guid,
                                gpth_first_entry = gpt_first_entry_sector cfg,
                                gpth_entry_num = of_nat GPT_ENTRY_MAX,
                                gpth_entry_size = of_nat GPT_ENTRY_SIZE,
                                gpth_entry_crc32 = ucast (gpt_crc32 (gpte_array_bytes tbl))\<rparr>;
                          h = h0\<lparr>gpth_crc32 := ucast (gpt_crc32 (gpth_bytes h0))\<rparr>
                      in Inr \<lparr>tb_pte = (gp_pte st)[0 := pte0], tb_gpth = h, tb_gpte = tbl,
                              tb_end = end, tb_report = gp_report st\<rparr>)))"

text \<open>The header of the alternate table, from the primary header and \<^verbatim>\<open>end\<close>.\<close>

definition gpth_backup :: "gpth \<Rightarrow> u64 \<Rightarrow> gpth" where
  "gpth_backup h end =
     (let h1 = h\<lparr>gpth_self := gpth_alternate h, gpth_alternate := gpth_self h\<rparr>;
          h2 = h1\<lparr>gpth_first_entry :=
                    end - of_nat (GPT_ENTRY_SIZE * GPT_ENTRY_MAX div DISK_SECTOR_SIZE)\<rparr>;
          h3 = h2\<lparr>gpth_crc32 := 0\<rparr>
      in h3\<lparr>gpth_crc32 := ucast (gpt_crc32 (gpth_bytes h3))\<rparr>)"

definition ascii :: "string \<Rightarrow> u8 list" where
  "ascii s = map (\<lambda>c. of_nat (of_char c)) s"

text \<open>The requests of \<^verbatim>\<open>gen_gptable\<close>, in order: those for the protective MBR, the
  primary header and the entry array, then those of the block under
  \<^verbatim>\<open>if (gpt_alternate)\<close>.\<close>

definition gptable_primary_script :: "config \<Rightarrow> u8 list \<Rightarrow> u32 \<Rightarrow> gpt_tables \<Rightarrow> io_op list" where
  "gptable_primary_script cfg filename signature t =
     (let S = of_nat DISK_SECTOR_SIZE;
          entries = gpte_array_bytes (tb_gpte t);
          img_name = (if \<not> gpt_split_image cfg then filename else filename @ ascii ''.start'')
      in [Open img_name]
         @ mbr_script signature (tb_pte t)
         @ [Write (MBR_BOOT_SIGNATURE_OFFSET + 2) (gpth_bytes (tb_gpth t)),
            Write (2 * S - 1) [0x00]]
         @ (if \<not> gpt_split_image cfg \<or> gpt_first_entry_sector cfg = GPT_FIRST_ENTRY_SECTOR
            then [Write (gpt_first_entry_sector cfg * S) entries]
            else [Open (filename @ ascii ''.entry''), Write 0 entries]))"

definition gptable_alternate_script :: "config \<Rightarrow> u8 list \<Rightarrow> gpt_tables \<Rightarrow> io_op list" where
  "gptable_alternate_script cfg filename t =
     (let S = of_nat DISK_SECTOR_SIZE;
          entries = gpte_array_bytes (tb_gpte t);
          h = gpth_backup (tb_gpth t) (tb_end t)
      in if \<not> gpt_split_image cfg then
           [Write (tb_end t * S - of_nat (GPT_ENTRY_SIZE * GPT_ENTRY_MAX)) entries,
            Write (tb_end t * S) (gpth_bytes h),
            Write ((tb_end t + 1) * S - 1) [0x00]]
         else
           [Open (filename @ ascii ''.end''),
            Write 0 entries,
            Write (of_nat GPT_SIZE * S) (gpth_bytes h),
            Write ((of_nat GPT_SIZE + 1) * S - 1) [0x00]])"

definition gptable_script :: "config \<Rightarrow> u8 list \<Rightarrow> u32 \<Rightarrow> gpt_tables \<Rightarrow> io_op list" where
  "gptable_script cfg filename signature t =
     gptable_primary_script cfg filename signature t
     @ (if gpt_alternate cfg then gptable_alternate_script cfg filename t else [])"

text \<open>\<^verbatim>\<open>static int gen_gptable(uint32_t signature, guid_t guid, unsigned nr)\<close>. Nothing is
  printed on standard output after the loop.\<close>

definition gen_gptable ::
  "(nat \<Rightarrow> bool) \<Rightarrow> config \<Rightarrow> u8 list \<Rightarrow> u32 \<Rightarrow> guid_t \<Rightarrow> partinfo list \<Rightarrow> outcome" where
  "gen_gptable ok cfg filename signature guid parts =
     (case gptable_build cfg guid parts of
        Inl e \<Rightarrow> \<lparr>ret = Some e,
                   report = gptable_printed cfg guid 0 parts (gptable_init cfg parts),
                   performed = []\<rparr>
      | Inr t \<Rightarrow>
          (case run_io ok 0 (gptable_script cfg filename signature t) of
             (r, done) \<Rightarrow> \<lparr>ret = r, report = tb_report t, performed = done\<rparr>))"

subsection \<open>The end of \<^verbatim>\<open>main\<close>\<close>

text \<open>The check of \<^verbatim>\<open>active\<close> after option parsing.\<close>

definition clamp_active :: "bool \<Rightarrow> u32 \<Rightarrow> u32" where
  "clamp_active use_guid_partition_table a =
     (if (use_guid_partition_table \<and> sint a > int GPT_ENTRY_MAX)
         \<or> (\<not> use_guid_partition_table \<and> sint a > int MBR_ENTRY_MAX)
         \<or> sint a < 0
      then 0 else a)"

text \<open>From that check to the return of \<^verbatim>\<open>main\<close>.\<close>

definition main_generate ::
  "(nat \<Rightarrow> bool) \<Rightarrow> bool \<Rightarrow> config \<Rightarrow> u8 list \<Rightarrow> u32 \<Rightarrow> guid_t \<Rightarrow> partinfo list \<Rightarrow> outcome" where
  "main_generate ok use_guid_partition_table cfg filename signature guid parts =
     (let cfg1 = cfg\<lparr>active := clamp_active use_guid_partition_table (active cfg)\<rparr>
      in if use_guid_partition_table
         then gen_gptable ok (cfg1\<lparr>heads := 254, sectors := 63\<rparr>) filename signature guid parts
         else gen_ptable ok cfg1 filename signature parts)"


subsection \<open>Reference encoding of names\<close>

text \<open>
  What the spec measures \<^verbatim>\<open>init_utf16\<close> against, written from its words and from the
  definition of UTF-8, not from the source: the UTF-8 bytes of a code point below
  \<open>2 ^ 16\<close>; the bytes that start none of the sequences the encoder handles; a name as a
  sequence of pieces, each an encoded code point or one such stray byte, with the code
  unit the spec assigns to each piece; and the reading of an ASCII name back from a
  zero-padded array of code units.
\<close>

definition utf8_encode :: "u16 \<Rightarrow> u8 list" where
  "utf8_encode cp =
     (if cp < 0x80 then [ucast cp]
      else if cp < 0x800 then
        [0xC0 OR ucast (drop_bit 6 cp), 0x80 OR ucast (cp AND 0x3F)]
      else
        [0xE0 OR ucast (drop_bit 12 cp), 0x80 OR ucast (drop_bit 6 cp AND 0x3F),
         0x80 OR ucast (cp AND 0x3F)])"

definition utf8_stray :: "u8 \<Rightarrow> bool" where
  "utf8_stray b \<longleftrightarrow> b AND 0x80 \<noteq> 0 \<and> b AND 0xE0 \<noteq> 0xC0 \<and> b AND 0xF0 \<noteq> 0xE0"

definition utf16_decode_ascii :: "u16 list \<Rightarrow> u8 list" where
  "utf16_decode_ascii units = map ucast (takeWhile (\<lambda>u. u \<noteq> 0) units)"

datatype utf8_piece = CodePoint u16 | Stray u8

fun piece_bytes :: "utf8_piece \<Rightarrow> u8 list" where
  "piece_bytes (CodePoint cp) = utf8_encode cp"
| "piece_bytes (Stray b) = [b]"

fun piece_unit :: "utf8_piece \<Rightarrow> u16" where
  "piece_unit (CodePoint cp) = cp"
| "piece_unit (Stray b) = 0x3F"

fun piece_ok :: "utf8_piece \<Rightarrow> bool" where
  "piece_ok (CodePoint cp) \<longleftrightarrow> cp \<noteq> 0"
| "piece_ok (Stray b) \<longleftrightarrow> utf8_stray b"

subsection \<open>Reference checksum and layout of the header\<close>

text \<open>
  What the spec measures an emitted GPT table against, written from its words and from
  the on-disk format, not from the source. The checksum is the spec's CRC32 engine,
  ``standard reflected CRC32, seeded all-ones, output inverted'', bit by bit: a byte is
  added into the low bits of the register, which is then shifted right eight times, the
  reflected polynomial \<open>0xEDB88320\<close> being added whenever a one is shifted out. A field of
  a block is the bytes at its offset, and holds a number least significant byte first. In
  the 92-byte header the fields are at the offsets
  \<^item> 16: the checksum of the header (4 bytes), zero while that checksum is computed;
  \<^item> 24 and 32: the LBA of the header itself and of the other header (8 bytes each);
  \<^item> 40 and 48: the first and the last usable LBA; 56: the disk identifier (16 bytes);
  \<^item> 72: the LBA of the entry array; 80 and 84: number and size of the entries;
  \<^item> 88: the checksum of the entry array (4 bytes).
\<close>

definition crc32_step :: "u32 \<Rightarrow> u32" where
  "crc32_step c = (if bit c 0 then drop_bit 1 c XOR 0xEDB88320 else drop_bit 1 c)"

fun crc32_update :: "u32 \<Rightarrow> u8 list \<Rightarrow> u32" where
  "crc32_update c [] = c"
| "crc32_update c (b # bs) = crc32_update ((crc32_step ^^ 8) (c XOR ucast b)) bs"

definition crc32_reference :: "u8 list \<Rightarrow> u32" where
  "crc32_reference bs = NOT (crc32_update (NOT 0) bs)"

definition bytes_at :: "nat \<Rightarrow> nat \<Rightarrow> u8 list \<Rightarrow> u8 list" where
  "bytes_at off n blk = take n (drop off blk)"

definition le_word :: "u8 list \<Rightarrow> 'a::len word" where
  "le_word bs = foldr (\<lambda>b w. ucast b OR push_bit 8 w) bs 0"

definition crc_field_zeroed :: "u8 list \<Rightarrow> u8 list" where
  "crc_field_zeroed hb = take 16 hb @ replicate 4 0 @ drop 20 hb"

subsection \<open>Sample runs\<close>

text \<open>A file system on which every request succeeds.\<close>

definition io_all_ok :: "nat \<Rightarrow> bool" where
  "io_all_ok k = True"


text \<open>The identifier \<^verbatim>\<open>main\<close> starts from, its default signature, and requests as the option
  \<^verbatim>\<open>-p size@start\<close> builds them with the default type \<^verbatim>\<open>0x83\<close> (a size and a start in
  KByte, start 0 if none is given).\<close>

definition GUID_PARTITION_LINUX_FS_GUID :: guid_t where
  "GUID_PARTITION_LINUX_FS_GUID =
     GUID_INIT 0x0fc63daf 0x8483 0x4772 [0x8e, 0x79, 0x3d, 0x69, 0xd8, 0x47, 0x7d, 0xe4]"

definition default_signature :: u32 where
  "default_signature = 0x5452574F"

definition default_guid :: guid_t where
  "default_guid =
     GUID_INIT default_signature 0x2211 0x4433 [0x55, 0x66, 0x77, 0x88, 0x99, 0xAA, 0xBB, 0x00]"

definition request :: "u64 \<Rightarrow> u64 \<Rightarrow> partinfo" where
  "request sz st =
     \<lparr>part_actual_start = 0, part_start = st, part_size = sz, part_type = 0x83,
      part_hybrid = 0, part_name = None, part_required = 0, part_has_guid = False,
      part_guid = GUID_PARTITION_LINUX_FS_GUID, part_gattr = 0\<rparr>"

text \<open>A request preceded by \<^verbatim>\<open>-H\<close>.\<close>

definition hybrid_request :: "u64 \<Rightarrow> u64 \<Rightarrow> partinfo" where
  "hybrid_request sz st = (request sz st)\<lparr>part_hybrid := 1\<rparr>"

text \<open>\<^verbatim>\<open>ptgen -h 16 -s 63 -o FILE ...\<close>\<close>

definition mbr_config :: config where
  "mbr_config =
     \<lparr>active = 1, heads = 16, sectors = 63, kb_align = 0,
      ignore_null_sized_partition = False, gpt_split_image = False, gpt_alternate = False,
      gpt_first_entry_sector = GPT_FIRST_ENTRY_SECTOR, gpt_last_usable_sector = 0\<rparr>"

text \<open>\<^verbatim>\<open>ptgen -g -d 0 -o FILE ...\<close>, with the geometry \<^verbatim>\<open>main\<close> sets in GPT mode.\<close>

definition gpt_config :: config where
  "gpt_config =
     \<lparr>active = 1, heads = 254, sectors = 63, kb_align = 0,
      ignore_null_sized_partition = False, gpt_split_image = False, gpt_alternate = True,
      gpt_first_entry_sector = GPT_FIRST_ENTRY_SECTOR, gpt_last_usable_sector = 0\<rparr>"

section \<open>Properties\<close>

subsection \<open>Auxiliary facts\<close>

lemma in_set_updateD: "e \<in> set (xs[i := x]) \<Longrightarrow> e = x \<or> e \<in> set xs"
  using set_update_subset_insert [of xs i x] by auto

lemma of_nat_Suc_neq_0_u32: "i < 128 \<Longrightarrow> (of_nat (i + 1) :: u32) \<noteq> 0"
  unfolding word_of_nat_eq_0_iff by (auto dest!: dvd_imp_le)

lemma length_le_bytes [simp]: "length (le_bytes n w) = n"
  by (simp add: le_bytes_def)

subsection \<open>Requests to the file system\<close>

lemma run_io_ok: "run_io ok k xs = (None, done) \<Longrightarrow> done = xs"
  by (induction xs arbitrary: k "done") (auto split: if_splits prod.splits)

lemma run_io_all: "run_io (\<lambda>_. True) k xs = (None, xs)"
  by (induction xs arbitrary: k) auto

lemma io_all_ok_eq: "io_all_ok = (\<lambda>_. True)"
  by (simp add: io_all_ok_def fun_eq_iff)

lemma gen_gptable_success:
  "ret (gen_gptable ok cfg filename signature guid parts) = None \<Longrightarrow>
   \<exists>t. gptable_build cfg guid parts = Inr t
     \<and> performed (gen_gptable ok cfg filename signature guid parts)
         = gptable_script cfg filename signature t"
  by (auto simp: gen_gptable_def split: sum.splits prod.splits dest: run_io_ok)

lemma gen_gptable_all_ok:
  "gptable_build cfg guid parts = Inr t \<Longrightarrow>
   gen_gptable (\<lambda>_. True) cfg filename signature guid parts
     = \<lparr>ret = None, report = tb_report t,
        performed = gptable_script cfg filename signature t\<rparr>"
  by (simp add: gen_gptable_def run_io_all)

subsection \<open>The active index\<close>

lemma clamp_active_0:
  "sint a < 0 \<or> sint a > (if g then 128 else 4) \<Longrightarrow> clamp_active g a = 0"
  by (auto simp: clamp_active_def GPT_ENTRY_MAX_def MBR_ENTRY_MAX_def split: if_splits)

lemma ptable_body_inactive:
  assumes "ptable_body cfg i p st = Inr st'" "active cfg = 0" "i < 128"
    "\<forall>e\<in>set (pt_pte st). pte_active e = 0"
  shows "\<forall>e\<in>set (pt_pte st'). pte_active e = 0"
  using assms of_nat_Suc_neq_0_u32[of i]
  by (auto simp: ptable_body_def Let_def split: if_splits option.splits dest!: in_set_updateD)

lemma ptable_loop_inactive:
  assumes "ptable_loop cfg i ps st = Inr st'" "active cfg = 0" "i + length ps \<le> 128"
    "\<forall>e\<in>set (pt_pte st). pte_active e = 0"
  shows "\<forall>e\<in>set (pt_pte st'). pte_active e = 0"
  using assms
proof (induction ps arbitrary: i st)
  case Nil
  then show ?case by simp
next
  case (Cons p ps)
  from Cons.prems(1) obtain st1 where b: "ptable_body cfg i p st = Inr st1"
    and l: "ptable_loop cfg (Suc i) ps st1 = Inr st'"
    by (auto split: sum.splits)
  from Cons.prems have "i < 128" by simp
  from ptable_body_inactive [OF b Cons.prems(2) this Cons.prems(4)]
  have "\<forall>e\<in>set (pt_pte st1). pte_active e = 0" .
  from Cons.IH [OF l Cons.prems(2) _ this] Cons.prems(3) show ?case by simp
qed

lemma chs_update_active:
  "pte_active (tbl[m := (tbl ! m)\<lparr>pte_chs_start := cs, pte_chs_end := ce\<rparr>] ! j)
     = pte_active (tbl ! j)"
  by (cases "m < length tbl") (auto simp: nth_list_update list_update_beyond not_less)

lemma gptable_hybrid_active:
  assumes "gptable_hybrid cfg i p start sect (tbl, k) = Some (tbl', k')"
  shows "length tbl' = length tbl"
    and "j < length tbl \<Longrightarrow> pte_active (tbl' ! j) =
           (if part_hybrid p \<noteq> 0 \<and> k < MBR_ENTRY_MAX \<and> j = k
            then (if of_nat (i + 1) = active cfg then 0x80 else 0)
            else pte_active (tbl ! j))"
  using assms
  by (auto simp: gptable_hybrid_def Let_def chs_update_active nth_list_update
           simp del: of_nat_add of_nat_Suc
           split: if_splits option.splits)

lemma gptable_hybrid_inactive:
  assumes "gptable_hybrid cfg i p start sect (tbl, k) = Some (tbl', k')"
    "active cfg = 0" "i < 128" "\<forall>e\<in>set tbl. pte_active e = 0"
  shows "(\<forall>e\<in>set tbl'. pte_active e = 0) \<and> length tbl' = length tbl"
proof -
  note h = gptable_hybrid_active [OF assms(1)]
  have "pte_active e = 0" if "e \<in> set tbl'" for e
  proof -
    from that obtain j where j: "j < length tbl'" "e = tbl' ! j"
      by (auto simp: in_set_conv_nth)
    with h(1) have jl: "j < length tbl" by simp
    then have "tbl ! j \<in> set tbl" by simp
    with assms(4) have "pte_active (tbl ! j) = 0" by blast
    with h(2) [OF jl] j assms(2) of_nat_Suc_neq_0_u32 [OF assms(3)] show ?thesis
      by (simp split: if_splits)
  qed
  with h(1) show ?thesis by blast
qed

lemma gptable_body_inactive:
  assumes "gptable_body cfg guid i p st = Inr st'" "active cfg = 0" "i < 128"
    "\<forall>e\<in>set (gp_pte st). pte_active e = 0"
    "\<forall>e\<in>set (gp_gpte st). gpte_attr e AND GPT_ATTR_LEGACY_BOOT = 0"
    "part_gattr p AND GPT_ATTR_LEGACY_BOOT = 0"
  shows "(\<forall>e\<in>set (gp_pte st'). pte_active e = 0)
     \<and> (\<forall>e\<in>set (gp_gpte st'). gpte_attr e AND GPT_ATTR_LEGACY_BOOT = 0)"
proof (cases "part_size p = 0")
  case True
  with assms show ?thesis by (auto simp: gptable_body_def split: if_splits)
next
  case False
  have a: "(part_gattr p OR GPT_ATTR_PLAT_REQUIRED) AND GPT_ATTR_LEGACY_BOOT = 0"
    using assms(6)
    by (simp add: bit.conj_disj_distrib2 GPT_ATTR_PLAT_REQUIRED_def GPT_ATTR_LEGACY_BOOT_def)
  from False assms(1) obtain start sect tbl k e where
    h: "gptable_hybrid cfg i p start sect (gp_pte st, gp_pmbr st) = Some (tbl, k)"
    and p: "gp_pte st' = tbl"
    and g: "gp_gpte st' = (gp_gpte st)[i := e]"
    and e: "gpte_attr e =
       (if part_required p \<noteq> 0 then
          (if (of_nat (i + 1) :: u32) = active cfg
           then part_gattr p OR GPT_ATTR_LEGACY_BOOT else part_gattr p)
          OR GPT_ATTR_PLAT_REQUIRED
        else (if (of_nat (i + 1) :: u32) = active cfg
              then part_gattr p OR GPT_ATTR_LEGACY_BOOT else part_gattr p))"
    by (auto simp: gptable_body_def Let_def split: if_splits option.splits prod.splits)
  from e a assms(2,3,6) of_nat_Suc_neq_0_u32[of i]
  have "gpte_attr e AND GPT_ATTR_LEGACY_BOOT = 0"
    by (auto split: if_splits)
  with gptable_hybrid_inactive [OF h assms(2,3,4)] p g assms(5) show ?thesis
    by (auto dest!: in_set_updateD)
qed

lemma gptable_loop_inactive:
  assumes "gptable_loop cfg guid i ps st = Inr st'" "active cfg = 0" "i + length ps \<le> 128"
    "\<forall>e\<in>set (gp_pte st). pte_active e = 0"
    "\<forall>e\<in>set (gp_gpte st). gpte_attr e AND GPT_ATTR_LEGACY_BOOT = 0"
    "\<forall>p\<in>set ps. part_gattr p AND GPT_ATTR_LEGACY_BOOT = 0"
  shows "(\<forall>e\<in>set (gp_pte st'). pte_active e = 0)
     \<and> (\<forall>e\<in>set (gp_gpte st'). gpte_attr e AND GPT_ATTR_LEGACY_BOOT = 0)"
  using assms
proof (induction ps arbitrary: i st)
  case Nil
  then show ?case by simp
next
  case (Cons p ps)
  from Cons.prems(1) obtain st1 where b: "gptable_body cfg guid i p st = Inr st1"
    and l: "gptable_loop cfg guid (Suc i) ps st1 = Inr st'"
    by (auto split: sum.splits)
  from Cons.prems have i: "i < 128" and g: "part_gattr p AND GPT_ATTR_LEGACY_BOOT = 0" by simp_all
  from gptable_body_inactive [OF b Cons.prems(2) i Cons.prems(4,5) g]
  have 1: "\<forall>e\<in>set (gp_pte st1). pte_active e = 0"
    and 2: "\<forall>e\<in>set (gp_gpte st1). gpte_attr e AND GPT_ATTR_LEGACY_BOOT = 0" by blast+
  from Cons.IH [OF l Cons.prems(2) _ 1 2] Cons.prems(3,6) show ?case by simp
qed

lemma gptable_filler_attr:
  "\<forall>e\<in>set tbl. gpte_attr e AND m = 0 \<Longrightarrow>
   \<forall>e\<in>set (gptable_filler cfg guid ps tbl). gpte_attr e AND m = 0"
proof (cases "GPT_ENTRY_MAX - 1 < length tbl")
  case True
  assume a: "\<forall>e\<in>set tbl. gpte_attr e AND m = 0"
  from True have "tbl ! (GPT_ENTRY_MAX - 1) \<in> set tbl" by simp
  with a have "gpte_attr (tbl ! (GPT_ENTRY_MAX - 1)) AND m = 0" by blast
  with a show ?thesis
    by (auto simp: gptable_filler_def split: list.splits dest!: in_set_updateD)
next
  case False
  assume a: "\<forall>e\<in>set tbl. gpte_attr e AND m = 0"
  from False have "tbl[GPT_ENTRY_MAX - 1 := x] = tbl" for x
    by (simp add: list_update_beyond)
  with a show ?thesis
    by (auto simp: gptable_filler_def split: list.splits)
qed

lemma gptable_build_inactive:
  assumes "gptable_build cfg guid parts = Inr t" "active cfg = 0" "length parts \<le> 128"
    "\<forall>p\<in>set parts. part_gattr p AND GPT_ATTR_LEGACY_BOOT = 0"
  shows "(\<forall>e\<in>set (tb_pte t). pte_active e = 0)
     \<and> (\<forall>e\<in>set (tb_gpte t). gpte_attr e AND GPT_ATTR_LEGACY_BOOT = 0)"
proof -
  from assms(1) obtain st cs ce where
    l: "gptable_loop cfg guid 0 parts (gptable_init cfg parts) = Inr st"
    and p: "tb_pte t = (gp_pte st)[0 := (gp_pte st ! 0)
              \<lparr>pte_type := 0xEE, pte_start := ucast GPT_HEADER_SECTOR,
               pte_length := ucast (tb_end t + 1 - GPT_HEADER_SECTOR),
               pte_chs_start := cs, pte_chs_end := ce\<rparr>]"
    and g: "tb_gpte t = gptable_filler cfg guid (gp_parts st) (gp_gpte st)"
    by (auto simp: gptable_build_def Let_def split: sum.splits option.splits)
  have i1: "\<forall>e\<in>set (gp_pte (gptable_init cfg parts)). pte_active e = 0"
    by (simp add: gptable_init_def zero_pte_def)
  have i2: "\<forall>e\<in>set (gp_gpte (gptable_init cfg parts)). gpte_attr e AND GPT_ATTR_LEGACY_BOOT = 0"
    by (simp add: gptable_init_def zero_gpte_def)
  from gptable_loop_inactive [OF l assms(2) _ i1 i2 assms(4)] assms(3)
  have 1: "\<forall>e\<in>set (gp_pte st). pte_active e = 0"
    and 2: "\<forall>e\<in>set (gp_gpte st). gpte_attr e AND GPT_ATTR_LEGACY_BOOT = 0" by simp_all
  have "pte_active e = 0" if "e \<in> set (tb_pte t)" for e
  proof (cases "gp_pte st")
    case Nil
    with that p show ?thesis by simp
  next
    case (Cons x xs)
    with 1 have "pte_active x = 0" by simp
    with that p 1 Cons show ?thesis by auto
  qed
  with gptable_filler_attr [OF 2] g show ?thesis by simp
qed

lemma gptable_build_succeeds:
  assumes "gptable_loop cfg guid 0 parts (gptable_init cfg parts) = Inr st"
    "heads cfg \<noteq> 0" "sectors cfg \<noteq> 0"
  shows "\<exists>t. gptable_build cfg guid parts = Inr t"
  using assms by (simp add: gptable_build_def Let_def to_chs_def)

lemma ptable_body_succeeds:
  assumes "part_size p \<noteq> 0"
    "part_start p = 0 \<or> \<not> part_start p * 2 < pt_sect st + scast (sectors cfg)"
    "heads cfg \<noteq> 0" "sectors cfg \<noteq> 0" "heads cfg * sectors cfg \<noteq> 0"
  shows "\<exists>st'. ptable_body cfg i p st = Inr st'"
  using assms by (auto simp: ptable_body_def Let_def round_to_cyl_def to_chs_def)

lemma ptable_loop_succeeds:
  assumes "\<forall>p\<in>set ps. part_size p \<noteq> 0 \<and> part_start p = 0"
    "heads cfg \<noteq> 0" "sectors cfg \<noteq> 0" "heads cfg * sectors cfg \<noteq> 0"
  shows "\<exists>st'. ptable_loop cfg i ps st = Inr st'"
  using assms(1)
proof (induction ps arbitrary: i st)
  case Nil
  then show ?case by simp
next
  case (Cons p ps)
  then have "part_size p \<noteq> 0" "part_start p = 0" by simp_all
  from ptable_body_succeeds [OF this(1) _ assms(2-4), of st i] this(2)
  obtain st1 where "ptable_body cfg i p st = Inr st1" by blast
  with Cons.IH [of "Suc i" st1] Cons.prems show ?case by simp
qed

lemma sample_ptable_loop:
  "\<exists>st. ptable_loop (mbr_config\<lparr>active := a\<rparr>) 0 [request 1024 0, request 2048 0] ptable_init
         = Inr st"
  by (rule ptable_loop_succeeds) (simp_all add: mbr_config_def request_def)

lemma sample_gptable_loop:
  "\<exists>st. gptable_loop (gpt_config\<lparr>active := a\<rparr>) default_guid 0
           [request 1024 0, request 2048 0]
           (gptable_init (gpt_config\<lparr>active := a\<rparr>) [request 1024 0, request 2048 0])
         = Inr st"
  by (simp add: gpt_config_def request_def gptable_init_def gptable_body_def
        gptable_hybrid_def Let_def GPT_SIZE_def GPT_ENTRY_SIZE_def GPT_ENTRY_MAX_def
        DISK_SECTOR_SIZE_def GPT_FIRST_ENTRY_SECTOR_def)

lemma sample_gptable_build:
  "\<exists>t. gptable_build (gpt_config\<lparr>active := a\<rparr>) default_guid
          [request 1024 0, request 2048 0] = Inr t"
proof -
  from sample_gptable_loop [of a] obtain st where
    "gptable_loop (gpt_config\<lparr>active := a\<rparr>) default_guid 0
           [request 1024 0, request 2048 0]
           (gptable_init (gpt_config\<lparr>active := a\<rparr>) [request 1024 0, request 2048 0])
         = Inr st" ..
  from gptable_build_succeeds [OF this] show ?thesis
    by (simp add: gpt_config_def)
qed

text \<open>
  C9. If the active index that \<^verbatim>\<open>main\<close> has parsed is negative or larger than the
  capacity of the table (4 entries in MBR mode, 128 in GPT mode), \<^verbatim>\<open>main\<close> calls the
  generator with the index 0. With that index no entry of the MBR table that
  \<^verbatim>\<open>gen_ptable\<close> builds has the active byte \<open>0x80\<close>; and, for requests whose own
  attribute bits do not contain it, no entry that \<^verbatim>\<open>gen_gptable\<close> builds has the
  legacy-BIOS-bootable attribute bit, nor has any entry of its MBR table the active byte.
\<close>

theorem active_out_of_range:
  assumes "sint (active cfg) < 0 \<or> sint (active cfg) > (if use_gpt then 128 else 4)"
  shows "main_generate ok use_gpt cfg filename signature guid parts =
           (if use_gpt
            then gen_gptable ok (cfg\<lparr>active := 0, heads := 254, sectors := 63\<rparr>)
                   filename signature guid parts
            else gen_ptable ok (cfg\<lparr>active := 0\<rparr>) filename signature parts)
       \<and> (\<forall>st. length parts \<le> 4 \<and>
              ptable_loop (cfg\<lparr>active := 0\<rparr>) 0 parts ptable_init = Inr st
              \<longrightarrow> (\<forall>e\<in>set (pt_pte st). pte_active e \<noteq> 0x80))
       \<and> (\<forall>t. length parts \<le> 128 \<and>
              (\<forall>p\<in>set parts. part_gattr p AND GPT_ATTR_LEGACY_BOOT = 0) \<and>
              gptable_build (cfg\<lparr>active := 0, heads := 254, sectors := 63\<rparr>) guid parts = Inr t
              \<longrightarrow> (\<forall>e\<in>set (tb_gpte t). gpte_attr e AND GPT_ATTR_LEGACY_BOOT = 0)
                \<and> (\<forall>e\<in>set (tb_pte t). pte_active e \<noteq> 0x80))"
proof (intro conjI allI impI)
  from clamp_active_0 [OF assms]
  show "main_generate ok use_gpt cfg filename signature guid parts =
           (if use_gpt
            then gen_gptable ok (cfg\<lparr>active := 0, heads := 254, sectors := 63\<rparr>)
                   filename signature guid parts
            else gen_ptable ok (cfg\<lparr>active := 0\<rparr>) filename signature parts)"
    by (simp add: main_generate_def)
next
  fix st
  assume a: "length parts \<le> 4 \<and> ptable_loop (cfg\<lparr>active := 0\<rparr>) 0 parts ptable_init = Inr st"
  have "\<forall>e\<in>set (pt_pte ptable_init). pte_active e = 0"
    by (simp add: ptable_init_def zero_pte_def)
  from ptable_loop_inactive [OF conjunct2 [OF a] _ _ this] a
  have "\<forall>e\<in>set (pt_pte st). pte_active e = 0" by simp
  then show "\<forall>e\<in>set (pt_pte st). pte_active e \<noteq> 0x80" by auto
next
  fix t
  assume a: "length parts \<le> 128 \<and>
              (\<forall>p\<in>set parts. part_gattr p AND GPT_ATTR_LEGACY_BOOT = 0) \<and>
              gptable_build (cfg\<lparr>active := 0, heads := 254, sectors := 63\<rparr>) guid parts = Inr t"
  then have b: "gptable_build (cfg\<lparr>active := 0, heads := 254, sectors := 63\<rparr>) guid parts = Inr t"
    and c: "\<forall>p\<in>set parts. part_gattr p AND GPT_ATTR_LEGACY_BOOT = 0"
    and d: "length parts \<le> 128" by blast+
  from gptable_build_inactive [OF b _ d c]
  have r: "(\<forall>e\<in>set (tb_pte t). pte_active e = 0)
     \<and> (\<forall>e\<in>set (tb_gpte t). gpte_attr e AND GPT_ATTR_LEGACY_BOOT = 0)" by simp
  then show "\<forall>e\<in>set (tb_gpte t). gpte_attr e AND GPT_ATTR_LEGACY_BOOT = 0" by blast
  from r show "\<forall>e\<in>set (tb_pte t). pte_active e \<noteq> 0x80" by auto
qed


theorem active_out_of_range_witness:
  "sint (active (mbr_config\<lparr>active := 7\<rparr>)) > 4
   \<and> main_generate (\<lambda>_. True) False (mbr_config\<lparr>active := 7\<rparr>) (ascii ''img'')
        default_signature default_guid [request 1024 0, request 2048 0]
      = gen_ptable (\<lambda>_. True) (mbr_config\<lparr>active := 0\<rparr>) (ascii ''img'')
          default_signature [request 1024 0, request 2048 0]
   \<and> (\<exists>st. ptable_loop (mbr_config\<lparr>active := 0\<rparr>) 0 [request 1024 0, request 2048 0]
              ptable_init = Inr st
          \<and> (\<forall>e\<in>set (pt_pte st). pte_active e \<noteq> 0x80))
   \<and> sint (active (gpt_config\<lparr>active := - 1\<rparr>)) < 0
   \<and> (\<exists>t. gptable_build (gpt_config\<lparr>active := 0\<rparr>) default_guid
              [request 1024 0, request 2048 0] = Inr t
          \<and> (\<forall>e\<in>set (tb_gpte t). gpte_attr e AND GPT_ATTR_LEGACY_BOOT = 0)
          \<and> (\<forall>e\<in>set (tb_pte t). pte_active e \<noteq> 0x80))"
proof -
  have h1: "sint (active (mbr_config\<lparr>active := 7\<rparr>)) < 0
      \<or> sint (active (mbr_config\<lparr>active := 7\<rparr>)) > (if False then 128 else 4)"
    by simp
  have h2: "sint (active (gpt_config\<lparr>active := - 1\<rparr>)) < 0
      \<or> sint (active (gpt_config\<lparr>active := - 1\<rparr>)) > (if True then 128 else 4)"
    by simp
  note m = active_out_of_range [OF h1, of "\<lambda>_. True" "ascii ''img''" default_signature
      default_guid "[request 1024 0, request 2048 0]"]
  note g = active_out_of_range [OF h2, of "\<lambda>_. True" "ascii ''img''" default_signature
      default_guid "[request 1024 0, request 2048 0]"]
  from sample_ptable_loop [of 0] obtain st where
    st: "ptable_loop (mbr_config\<lparr>active := 0\<rparr>) 0 [request 1024 0, request 2048 0]
           ptable_init = Inr st" ..
  from sample_gptable_build [of 0] obtain t where
    t: "gptable_build (gpt_config\<lparr>active := 0\<rparr>) default_guid
          [request 1024 0, request 2048 0] = Inr t" ..
  have c: "gpt_config\<lparr>active := 0, heads := 254, sectors := 63\<rparr> = gpt_config\<lparr>active := 0\<rparr>"
    by (simp add: gpt_config_def)
  have r: "\<forall>p\<in>set [request 1024 0, request 2048 0]. part_gattr p AND GPT_ATTR_LEGACY_BOOT = 0"
    by (simp add: request_def)
  from m st have 1: "\<forall>e\<in>set (pt_pte st). pte_active e \<noteq> 0x80" by simp
  from g t r have 2: "(\<forall>e\<in>set (tb_gpte t). gpte_attr e AND GPT_ATTR_LEGACY_BOOT = 0)
          \<and> (\<forall>e\<in>set (tb_pte t). pte_active e \<noteq> 0x80)"
    by (simp add: c)
  from m have 3: "main_generate (\<lambda>_. True) False (mbr_config\<lparr>active := 7\<rparr>) (ascii ''img'')
        default_signature default_guid [request 1024 0, request 2048 0]
      = gen_ptable (\<lambda>_. True) (mbr_config\<lparr>active := 0\<rparr>) (ascii ''img'')
          default_signature [request 1024 0, request 2048 0]" by simp
  from 1 2 3 st t show ?thesis by auto
qed

subsection \<open>The layout pass\<close>

lemma ptable_body_skip:
  "part_size p = 0 \<Longrightarrow> ptable_body cfg i p st =
     (if ignore_null_sized_partition cfg then Inr st else Inl InvalidPartition)"
  by (simp add: ptable_body_def)

lemma gptable_body_skip:
  "part_size p = 0 \<Longrightarrow> gptable_body cfg guid i p st =
     (if ignore_null_sized_partition cfg then Inr st else Inl InvalidPartition)"
  by (simp add: gptable_body_def)

lemma ptable_body_overlap:
  "part_size p \<noteq> 0 \<Longrightarrow> part_start p \<noteq> 0 \<Longrightarrow> part_start p * 2 < ptable_cursor cfg st \<Longrightarrow>
   ptable_body cfg i p st = Inl OverlapError"
  by (simp add: ptable_body_def Let_def ptable_cursor_def)

lemma gptable_body_overlap:
  "part_size p \<noteq> 0 \<Longrightarrow> part_start p \<noteq> 0 \<Longrightarrow> part_start p * 2 < gp_sect st \<Longrightarrow>
   gptable_body cfg guid i p st = Inl OverlapError"
  by (simp add: gptable_body_def Let_def)

lemma ptable_body_placed:
  assumes "ptable_body cfg i p st = Inr st'" "part_size p \<noteq> 0"
  shows "\<exists>start.
      pt_placed st' = pt_placed st @ [(start, pt_sect st' - start)]
    \<and> pt_report st' = pt_report st @ [start * 512, (pt_sect st' - start) * 512]
    \<and> (\<exists>e. pt_pte st' = (pt_pte st)[i := e] \<and> pte_start e = ucast start
           \<and> pte_length e = ucast (pt_sect st' - start))
    \<and> (part_start p \<noteq> 0 \<longrightarrow> start = part_start p * 2 \<and> \<not> part_start p * 2 < ptable_cursor cfg st)
    \<and> (part_start p = 0 \<and> kb_align cfg = 0 \<longrightarrow> start = ptable_cursor cfg st)
    \<and> (part_start p = 0 \<and> kb_align cfg \<noteq> 0 \<longrightarrow> start = round_to_kb cfg (ptable_cursor cfg st))
    \<and> (kb_align cfg = 0 \<longrightarrow> round_to_cyl cfg (start + part_size p * 2) = Some (pt_sect st'))
    \<and> (kb_align cfg \<noteq> 0 \<longrightarrow> pt_sect st' = start + part_size p * 2)"
  using assms
  by (auto simp: ptable_body_def Let_def ptable_cursor_def DISK_SECTOR_SIZE_def
        split: if_splits option.splits)

lemma gptable_body_placed:
  assumes "gptable_body cfg guid i p st = Inr st'" "part_size p \<noteq> 0"
  shows "\<exists>start.
      gp_parts st' = (gp_parts st)[i := p\<lparr>part_actual_start := start\<rparr>]
    \<and> gp_report st' = gp_report st @ [start * 512, (gp_sect st' - start) * 512]
    \<and> (\<exists>e. gp_gpte st' = (gp_gpte st)[i := e] \<and> gpte_start e = start
           \<and> gpte_end e = gp_sect st' - 1 \<and> gpte_type e = part_guid p)
    \<and> (part_start p \<noteq> 0 \<longrightarrow> start = part_start p * 2 \<and> \<not> part_start p * 2 < gp_sect st)
    \<and> (part_start p = 0 \<and> kb_align cfg = 0 \<longrightarrow> start = gp_sect st)
    \<and> (part_start p = 0 \<and> kb_align cfg \<noteq> 0 \<longrightarrow> start = round_to_kb cfg (gp_sect st))
    \<and> gp_sect st' = start + part_size p * 2
    \<and> \<not> (gpt_last_usable_sector cfg > 0
          \<and> start + part_size p * 2 > gpt_last_usable_sector cfg + 1)"
  using assms
  by (auto simp: gptable_body_def Let_def DISK_SECTOR_SIZE_def
        split: if_splits option.splits prod.splits)


lemma ptable_loop_append:
  "ptable_loop cfg i (xs @ ys) st =
     (case ptable_loop cfg i xs st of
        Inl e \<Rightarrow> Inl e
      | Inr st' \<Rightarrow> ptable_loop cfg (i + length xs) ys st')"
  by (induction xs arbitrary: i st) (auto split: sum.splits)

lemma gptable_loop_append:
  "gptable_loop cfg guid i (xs @ ys) st =
     (case gptable_loop cfg guid i xs st of
        Inl e \<Rightarrow> Inl e
      | Inr st' \<Rightarrow> gptable_loop cfg guid (i + length xs) ys st')"
  by (induction xs arbitrary: i st) (auto split: sum.splits)

lemma gptable_body_succeeds:
  assumes "part_size p \<noteq> 0" "part_start p = 0 \<or> \<not> part_start p * 2 < gp_sect st"
    "gpt_last_usable_sector cfg = 0" "part_hybrid p = 0" "part_name p = None"
  shows "\<exists>st'. gptable_body cfg guid i p st = Inr st'"
  using assms by (auto simp: gptable_body_def Let_def gptable_hybrid_def)

lemma ptable_body_unfold:
  assumes "part_size p \<noteq> 0"
    and "\<not> (part_start p \<noteq> 0 \<and> part_start p * 2 < pt_sect st + scast (sectors cfg))"
    and "start = (if part_start p \<noteq> 0 then part_start p * 2
                  else if kb_align cfg \<noteq> 0
                       then round_to_kb cfg (pt_sect st + scast (sectors cfg))
                       else pt_sect st + scast (sectors cfg))"
    and "r = (if kb_align cfg = 0 then round_to_cyl cfg (start + part_size p * 2)
              else Some (start + part_size p * 2))"
  shows "ptable_body cfg i p st =
     (case r of
        None \<Rightarrow> Inl DivideByZero
      | Some sect \<Rightarrow>
         (case to_chs cfg start of
            None \<Rightarrow> Inl DivideByZero
          | Some cs \<Rightarrow>
             (case to_chs cfg (start + (sect - start) - 1) of
                None \<Rightarrow> Inl DivideByZero
              | Some ce \<Rightarrow>
                  Inr \<lparr>pt_sect = sect,
                       pt_pte = (pt_pte st)
                         [i := (pt_pte st ! i)
                            \<lparr>pte_active := (if of_nat (i + 1) = active cfg then 0x80 else 0),
                             pte_type := ucast (part_type p),
                             pte_start := ucast start, pte_length := ucast (sect - start),
                             pte_chs_start := cs, pte_chs_end := ce\<rparr>],
                       pt_placed = pt_placed st @ [(start, sect - start)],
                       pt_report = pt_report st
                         @ [start * of_nat DISK_SECTOR_SIZE,
                            (sect - start) * of_nat DISK_SECTOR_SIZE]\<rparr>)))"
  using assms(1,2) unfolding assms(3,4) ptable_body_def Let_def
  by (cases "part_start p = 0"; cases "kb_align cfg = 0"; simp)

lemma gptable_body_unfold:
  assumes "part_size p \<noteq> 0"
    and "\<not> (part_start p \<noteq> 0 \<and> part_start p * 2 < gp_sect st)"
    and "start = (if part_start p \<noteq> 0 then part_start p * 2
                  else if kb_align cfg \<noteq> 0 then round_to_kb cfg (gp_sect st)
                       else gp_sect st)"
    and "\<not> (gpt_last_usable_sector cfg > 0
            \<and> start + part_size p * 2 > gpt_last_usable_sector cfg + 1)"
  shows "gptable_body cfg guid i p st =
     (case gptable_hybrid cfg i p start (start + part_size p * 2) (gp_pte st, gp_pmbr st) of
        None \<Rightarrow> Inl DivideByZero
      | Some (tbl, pmbr) \<Rightarrow>
         (case (case part_name p of
                  None \<Rightarrow> Some (gpte_name (gp_gpte st ! i))
                | Some str \<Rightarrow>
                    init_utf16 str (gpte_name (gp_gpte st ! i)) (GPT_ENTRY_NAME_SIZE div 2)) of
            None \<Rightarrow> Inl StringOverrun
          | Some nm \<Rightarrow>
              Inr \<lparr>gp_sect = start + part_size p * 2,
                   gp_parts = (gp_parts st)[i := p\<lparr>part_actual_start := start\<rparr>],
                   gp_gpte = (gp_gpte st)
                     [i := (gp_gpte st ! i)
                        \<lparr>gpte_start := start, gpte_end := start + part_size p * 2 - 1,
                         gpte_guid := guid_add_last guid (i + 1),
                         gpte_type := part_guid p,
                         gpte_attr :=
                           (if part_required p \<noteq> 0
                            then (if (of_nat (i + 1) :: u32) = active cfg
                                  then part_gattr p OR GPT_ATTR_LEGACY_BOOT
                                  else part_gattr p) OR GPT_ATTR_PLAT_REQUIRED
                            else (if (of_nat (i + 1) :: u32) = active cfg
                                  then part_gattr p OR GPT_ATTR_LEGACY_BOOT
                                  else part_gattr p)),
                         gpte_name := nm\<rparr>],
                   gp_pte = tbl,
                   gp_pmbr = pmbr,
                   gp_report = gp_report st
                     @ [start * of_nat DISK_SECTOR_SIZE,
                        (start + part_size p * 2 - start) * of_nat DISK_SECTOR_SIZE]\<rparr>))"
  using assms(1,2,4) unfolding assms(3) gptable_body_def Let_def
  by (cases "part_start p = 0"; cases "kb_align cfg = 0"; cases "part_required p = 0";
      cases "0 < gpt_last_usable_sector cfg"; simp cong: option.case_cong)

lemma gptable_body_out_of_space:
  assumes "part_size p \<noteq> 0"
    and "\<not> (part_start p \<noteq> 0 \<and> part_start p * 2 < gp_sect st)"
    and "start = (if part_start p \<noteq> 0 then part_start p * 2
                  else if kb_align cfg \<noteq> 0 then round_to_kb cfg (gp_sect st)
                       else gp_sect st)"
    and "gpt_last_usable_sector cfg > 0
            \<and> start + part_size p * 2 > gpt_last_usable_sector cfg + 1"
  shows "gptable_body cfg guid i p st = Inl OutOfSpace"
  using assms(1,2,4) unfolding assms(3) gptable_body_def Let_def
  by (cases "part_start p = 0"; cases "kb_align cfg = 0"; simp)

lemma gen_ptable_fails:
  "ptable_loop cfg 0 parts ptable_init = Inl e \<Longrightarrow>
   gen_ptable ok cfg filename signature parts
     = \<lparr>ret = Some e, report = ptable_printed cfg 0 parts ptable_init, performed = []\<rparr>"
  by (simp add: gen_ptable_def)

lemma gen_gptable_fails:
  "gptable_loop cfg guid 0 parts (gptable_init cfg parts) = Inl e \<Longrightarrow>
   gen_gptable ok cfg filename signature guid parts
     = \<lparr>ret = Some e, report = gptable_printed cfg guid 0 parts (gptable_init cfg parts),
        performed = []\<rparr>"
  by (simp add: gen_gptable_def gptable_build_def)

lemma ptable_printed_append:
  "ptable_printed cfg i (xs @ ys) st =
     (case ptable_loop cfg i xs st of
        Inl e \<Rightarrow> ptable_printed cfg i xs st
      | Inr st' \<Rightarrow> ptable_printed cfg (i + length xs) ys st')"
  by (induction xs arbitrary: i st) (auto split: sum.splits)

lemma gptable_printed_append:
  "gptable_printed cfg guid i (xs @ ys) st =
     (case gptable_loop cfg guid i xs st of
        Inl e \<Rightarrow> gptable_printed cfg guid i xs st
      | Inr st' \<Rightarrow> gptable_printed cfg guid (i + length xs) ys st')"
  by (induction xs arbitrary: i st) (auto split: sum.splits)

lemma ptable_printed_done:
  "ptable_loop cfg i ps st = Inr st' \<Longrightarrow> ptable_printed cfg i ps st = pt_report st'"
  by (induction ps arbitrary: i st) (auto split: sum.splits)

lemma gptable_printed_done:
  "gptable_loop cfg guid i ps st = Inr st' \<Longrightarrow> gptable_printed cfg guid i ps st = gp_report st'"
  by (induction ps arbitrary: i st) (auto split: sum.splits)

lemma gen_ptable_fails_at:
  assumes "ptable_loop cfg 0 pre ptable_init = Inr st"
    and "ptable_body cfg (length pre) p st = Inl e"
  shows "gen_ptable ok cfg filename signature (pre @ p # post)
           = \<lparr>ret = Some e, report = pt_report st, performed = []\<rparr>"
proof -
  from assms have "ptable_loop cfg 0 (pre @ p # post) ptable_init = Inl e"
    by (simp add: ptable_loop_append)
  moreover from assms have "ptable_printed cfg 0 (pre @ p # post) ptable_init = pt_report st"
    by (simp add: ptable_printed_append)
  ultimately show ?thesis by (simp add: gen_ptable_fails)
qed

lemma gen_gptable_fails_at:
  assumes "gptable_loop cfg guid 0 pre (gptable_init cfg (pre @ p # post)) = Inr st"
    and "gptable_body cfg guid (length pre) p st = Inl e"
  shows "gen_gptable ok cfg filename signature guid (pre @ p # post)
           = \<lparr>ret = Some e, report = gp_report st, performed = []\<rparr>"
proof -
  let ?init = "gptable_init cfg (pre @ p # post)"
  from assms have "gptable_loop cfg guid 0 (pre @ p # post) ?init = Inl e"
    by (simp add: gptable_loop_append)
  moreover from assms have "gptable_printed cfg guid 0 (pre @ p # post) ?init = gp_report st"
    by (simp add: gptable_printed_append)
  ultimately show ?thesis by (simp add: gen_gptable_fails)
qed




text \<open>
  C1 (as amended). \<^verbatim>\<open>gen_gptable\<close> starts its cursor \<^verbatim>\<open>sect\<close> at the first usable LBA,
  the first-entry sector plus the 32 sectors of the entry array (the value its header
  stores as \<^verbatim>\<open>first_usable\<close>); a request with no explicit start and alignment disabled
  starts at the cursor; and after each partition laid out the cursor is that partition's
  start plus twice its size in KByte. \<^verbatim>\<open>gen_ptable\<close> starts at 0 and considers the sector
  one track past its cursor, so that the first sector considered is one track; a request
  with no explicit start and alignment disabled starts there; and after each partition
  laid out the next sector considered is one track past the partition's end, where the
  end (start plus recorded length) is start plus twice the size, passed through
  \<^verbatim>\<open>round_to_cyl\<close> when alignment is disabled and left as it is when alignment is enabled.
\<close>

theorem layout_cursor:
  "gp_sect (gptable_init cfg parts) = gpt_first_entry_sector cfg + 32
   \<and> (\<forall>t. gptable_build cfg guid parts = Inr t \<longrightarrow>
          gpth_first_usable (tb_gpth t) = gp_sect (gptable_init cfg parts))
   \<and> ptable_cursor cfg ptable_init = scast (sectors cfg)
   \<and> (\<forall>i p st st'.
         gptable_body cfg guid i p st = Inr st' \<and> part_size p \<noteq> 0 \<and> i < length (gp_parts st)
         \<longrightarrow> (part_start p = 0 \<and> kb_align cfg = 0
                \<longrightarrow> part_actual_start (gp_parts st' ! i) = gp_sect st)
           \<and> gp_sect st' = part_actual_start (gp_parts st' ! i) + part_size p * 2)
   \<and> (\<forall>i p st st'.
         ptable_body cfg i p st = Inr st' \<and> part_size p \<noteq> 0
         \<longrightarrow> (\<exists>start len.
                pt_placed st' = pt_placed st @ [(start, len)]
              \<and> (part_start p = 0 \<and> kb_align cfg = 0 \<longrightarrow> start = ptable_cursor cfg st)
              \<and> ptable_cursor cfg st' = start + len + scast (sectors cfg)
              \<and> (kb_align cfg = 0
                   \<longrightarrow> round_to_cyl cfg (start + part_size p * 2) = Some (start + len))
              \<and> (kb_align cfg \<noteq> 0 \<longrightarrow> len = part_size p * 2)))"
proof -
  have c1: "gp_sect (gptable_init cfg parts) = gpt_first_entry_sector cfg + 32"
    by (simp add: gptable_init_def GPT_SIZE_def GPT_ENTRY_SIZE_def GPT_ENTRY_MAX_def
          DISK_SECTOR_SIZE_def)
  have c2: "gpth_first_usable (tb_gpth t) = gp_sect (gptable_init cfg parts)"
    if "gptable_build cfg guid parts = Inr t" for t
    using that
    by (auto simp: gptable_build_def gptable_init_def Let_def split: sum.splits option.splits)
  have c3: "ptable_cursor cfg ptable_init = scast (sectors cfg)"
    by (simp add: ptable_cursor_def ptable_init_def)
  have c4: "(part_start p = 0 \<and> kb_align cfg = 0
                \<longrightarrow> part_actual_start (gp_parts st' ! i) = gp_sect st)
           \<and> gp_sect st' = part_actual_start (gp_parts st' ! i) + part_size p * 2"
    if "gptable_body cfg guid i p st = Inr st' \<and> part_size p \<noteq> 0 \<and> i < length (gp_parts st)"
    for i p st st'
  proof -
    from that have b: "gptable_body cfg guid i p st = Inr st'" and s: "part_size p \<noteq> 0"
      and l: "i < length (gp_parts st)" by blast+
    from gptable_body_placed [OF b s] l show ?thesis by auto
  qed
  have c5: "\<exists>start len.
                pt_placed st' = pt_placed st @ [(start, len)]
              \<and> (part_start p = 0 \<and> kb_align cfg = 0 \<longrightarrow> start = ptable_cursor cfg st)
              \<and> ptable_cursor cfg st' = start + len + scast (sectors cfg)
              \<and> (kb_align cfg = 0
                   \<longrightarrow> round_to_cyl cfg (start + part_size p * 2) = Some (start + len))
              \<and> (kb_align cfg \<noteq> 0 \<longrightarrow> len = part_size p * 2)"
    if "ptable_body cfg i p st = Inr st' \<and> part_size p \<noteq> 0" for i p st st'
  proof -
    from that have b: "ptable_body cfg i p st = Inr st'" and s: "part_size p \<noteq> 0" by blast+
    from ptable_body_placed [OF b s] obtain start where
      1: "pt_placed st' = pt_placed st @ [(start, pt_sect st' - start)]"
      and 2: "part_start p = 0 \<and> kb_align cfg = 0 \<longrightarrow> start = ptable_cursor cfg st"
      and 3: "kb_align cfg = 0 \<longrightarrow> round_to_cyl cfg (start + part_size p * 2) = Some (pt_sect st')"
      and 4: "kb_align cfg \<noteq> 0 \<longrightarrow> pt_sect st' = start + part_size p * 2"
      by blast
    have 5: "ptable_cursor cfg st' = start + (pt_sect st' - start) + scast (sectors cfg)"
      by (simp add: ptable_cursor_def)
    from 4 have 6: "kb_align cfg \<noteq> 0 \<longrightarrow> pt_sect st' - start = part_size p * 2" by simp
    from 3 have 7: "kb_align cfg = 0
        \<longrightarrow> round_to_cyl cfg (start + part_size p * 2) = Some (start + (pt_sect st' - start))"
      by simp
    from 1 2 5 6 7 show ?thesis by blast
  qed
  from c1 c2 c3 c4 c5 show ?thesis by blast
qed

text \<open>
  C1 as stated fails in MBR mode. With 16 heads and 63 sectors per track, requests of
  1024 and 2048 KByte, no explicit start and no alignment: the first partition starts at
  sector 63 and is recorded with 2961 sectors; afterwards \<^verbatim>\<open>sect\<close> is 3024 and the next
  sector considered is 3087, neither of them the partition's start plus its size
  \<open>63 + 2048\<close>; and the second partition starts at 3087, not at the end \<open>63 + 2961\<close> of the
  first.
\<close>

theorem layout_cursor_counterexample:
  "map_sum id pt_placed
      (ptable_loop mbr_config 0 [request 1024 0, request 2048 0] ptable_init)
     = Inr [(63, 2961), (3087, 4977)]
   \<and> map_sum id pt_sect (ptable_body mbr_config 0 (request 1024 0) ptable_init) = Inr 3024
   \<and> map_sum id (ptable_cursor mbr_config)
        (ptable_body mbr_config 0 (request 1024 0) ptable_init) = Inr 3087
   \<and> part_start (request 1024 0) = 0 \<and> part_start (request 2048 0) = 0
   \<and> kb_align mbr_config = 0
   \<and> part_size (request 1024 0) * 2 = 2048
   \<and> (63 :: u64) + 2048 \<noteq> 3024 \<and> (63 :: u64) + 2048 \<noteq> 3087
   \<and> (63 :: u64) + 2961 \<noteq> 3087"
  by code_simp


theorem layout_cursor_witness:
  "part_size (request 1024 0) \<noteq> 0 \<and> part_start (request 1024 0) = 0
   \<and> kb_align mbr_config = 0 \<and> kb_align gpt_config = 0
   \<and> 0 < length (gp_parts (gptable_init gpt_config [request 1024 0]))
   \<and> (\<exists>st' start len.
         ptable_body mbr_config 0 (request 1024 0) ptable_init = Inr st'
       \<and> pt_placed st' = pt_placed ptable_init @ [(start, len)]
       \<and> start = ptable_cursor mbr_config ptable_init
       \<and> ptable_cursor mbr_config st' = start + len + scast (sectors mbr_config)
       \<and> round_to_cyl mbr_config (start + part_size (request 1024 0) * 2) = Some (start + len))
   \<and> (\<exists>st'.
         gptable_body gpt_config default_guid 0 (request 1024 0)
           (gptable_init gpt_config [request 1024 0]) = Inr st'
       \<and> part_actual_start (gp_parts st' ! 0)
           = gp_sect (gptable_init gpt_config [request 1024 0])
       \<and> gp_sect st'
           = part_actual_start (gp_parts st' ! 0) + part_size (request 1024 0) * 2)
   \<and> (\<exists>t. gptable_build gpt_config default_guid [request 1024 0, request 2048 0] = Inr t
       \<and> gpth_first_usable (tb_gpth t)
           = gp_sect (gptable_init gpt_config [request 1024 0, request 2048 0]))"
proof -
  have r: "part_size (request 1024 0) \<noteq> 0" "part_start (request 1024 0) = 0"
    "kb_align mbr_config = 0" "kb_align gpt_config = 0"
    "0 < length (gp_parts (gptable_init gpt_config [request 1024 0]))"
    by (simp_all add: request_def mbr_config_def gpt_config_def gptable_init_def)
  from ptable_body_succeeds [OF r(1), of ptable_init mbr_config 0] r(2)
  obtain st1 where m: "ptable_body mbr_config 0 (request 1024 0) ptable_init = Inr st1"
    by (auto simp: mbr_config_def)
  from gptable_body_succeeds [OF r(1), of "gptable_init gpt_config [request 1024 0]"
      gpt_config default_guid 0] r(2)
  obtain st2 where g: "gptable_body gpt_config default_guid 0 (request 1024 0)
           (gptable_init gpt_config [request 1024 0]) = Inr st2"
    by (auto simp: gpt_config_def request_def)
  from sample_gptable_build [of 1] obtain t where
    t: "gptable_build gpt_config default_guid [request 1024 0, request 2048 0] = Inr t"
    by (auto simp: gpt_config_def)
  note M = layout_cursor [of mbr_config "[]" default_guid]
  note G = layout_cursor [of gpt_config "[request 1024 0, request 2048 0]" default_guid]
  from M m r have 1: "\<exists>start len.
         pt_placed st1 = pt_placed ptable_init @ [(start, len)]
       \<and> start = ptable_cursor mbr_config ptable_init
       \<and> ptable_cursor mbr_config st1 = start + len + scast (sectors mbr_config)
       \<and> round_to_cyl mbr_config (start + part_size (request 1024 0) * 2) = Some (start + len)"
    by blast
  from G g r have 2: "part_actual_start (gp_parts st2 ! 0)
           = gp_sect (gptable_init gpt_config [request 1024 0])
       \<and> gp_sect st2
           = part_actual_start (gp_parts st2 ! 0) + part_size (request 1024 0) * 2"
    by blast
  from G t have 3: "gpth_first_usable (tb_gpth t)
           = gp_sect (gptable_init gpt_config [request 1024 0, request 2048 0])"
    by blast
  from r m g t 1 2 3 show ?thesis by blast
qed




subsection \<open>Rounding to cylinders\<close>

lemma uint_eq_sint_nonneg:
  fixes s :: u64
  assumes "0 \<le> sint s"
  shows "uint s = sint s" "uint s < 2 ^ 63"
proof -
  have "sint s < 2 ^ 63" using sint_lt [of s] by simp
  with assms show "uint s = sint s"
    by (simp add: uint_sint take_bit_int_eq_self)
  with \<open>sint s < 2 ^ 63\<close> show "uint s < 2 ^ 63" by simp
qed

lemma sint_scast_u32_u64: "sint (scast (c :: u32) :: u64) = sint c"
  by (simp add: sint_up_scast is_up)

lemma smod_nonneg: "0 \<le> k \<Longrightarrow> 0 < l \<Longrightarrow> k smod l = k mod (l :: int)"
  by (cases "k = 0") (simp_all add: signed_modulo_int_def)

lemma round_to_cyl_value:
  assumes c: "0 < sint (heads cfg * sectors cfg)" and s: "0 \<le> sint s"
  shows "\<exists>r. round_to_cyl cfg s = Some r
     \<and> uint r = uint s + sint (heads cfg * sectors cfg)
                - uint s mod sint (heads cfg * sectors cfg)"
proof -
  let ?C = "sint (heads cfg * sectors cfg)"
  from c have nz: "heads cfg * sectors cfg \<noteq> 0" by auto
  have C: "?C < 2 ^ 31" using sint_lt [of "heads cfg * sectors cfg"] by simp
  note u = uint_eq_sint_nonneg [OF s]
  have m: "smod64 s (scast (heads cfg * sectors cfg)) = word_of_int (uint s mod ?C)"
    using s c u by (simp add: smod64_def sint_scast_u32_u64 smod_nonneg)
  let ?v = "uint s + ?C - uint s mod ?C"
  have "s + scast (heads cfg * sectors cfg) - smod64 s (scast (heads cfg * sectors cfg))
        = word_of_int (uint s) + word_of_int ?C - word_of_int (uint s mod ?C)"
    unfolding m by simp
  also have "\<dots> = word_of_int ?v"
    by (simp only: wi_hom_add wi_hom_sub)
  finally have r: "s + scast (heads cfg * sectors cfg)
      - smod64 s (scast (heads cfg * sectors cfg)) = (word_of_int ?v :: u64)" .
  have "0 \<le> uint s mod ?C" "uint s mod ?C < ?C" "uint s mod ?C \<le> uint s"
    using c s u by (simp_all add: zmod_le_nonneg_dividend)
  then have "0 \<le> ?v" "?v < 2 ^ LENGTH(64)" using u(2) C by simp_all
  from word_of_int_inverse [OF r [symmetric] this]
  have "uint (s + scast (heads cfg * sectors cfg)
      - smod64 s (scast (heads cfg * sectors cfg))) = ?v" .
  with nz show ?thesis
    by (simp add: round_to_cyl_def Let_def)
qed

lemma round_to_cyl_up:
  assumes c: "0 < sint (heads cfg * sectors cfg)" and s: "0 \<le> sint s"
  shows "\<exists>r. round_to_cyl cfg s = Some r
     \<and> uint s < uint r
     \<and> uint r \<le> uint s + sint (heads cfg * sectors cfg)
     \<and> sint (heads cfg * sectors cfg) dvd uint r
     \<and> (sint (heads cfg * sectors cfg) dvd uint s
          \<longrightarrow> uint r = uint s + sint (heads cfg * sectors cfg))"
proof -
  let ?C = "sint (heads cfg * sectors cfg)"
  from round_to_cyl_value [OF c s] obtain r where
    r: "round_to_cyl cfg s = Some r" and v: "uint r = uint s + ?C - uint s mod ?C" by blast
  have b: "0 \<le> uint s mod ?C" "uint s mod ?C < ?C"
    using c by simp_all
  have "uint s - uint s mod ?C = ?C * (uint s div ?C)"
    by (simp add: minus_mod_eq_mult_div)
  then have "uint r = ?C * (uint s div ?C) + ?C" using v by simp
  then have d: "?C dvd uint r" by simp
  have e: "?C dvd uint s \<longrightarrow> uint r = uint s + ?C" using v by (simp add: dvd_eq_mod_eq_0)
  from r v b d e show ?thesis by simp
qed


lemma pow2_63_64:
  "(2 :: int) ^ 63 = 9223372036854775808" "(2 :: int) ^ 64 = 18446744073709551616"
  by simp_all

lemma sint_eq_uint_small:
  fixes w :: u64
  assumes "uint w < 2 ^ 63"
  shows "sint w = uint w"
proof -
  have "- (2 ^ 63) \<le> uint w" using uint_ge_0 [of w] unfolding pow2_63_64 by linarith
  with assms have "signed_take_bit 63 (uint w) = uint w"
    by (intro signed_take_bit_int_eq_self) simp_all
  then show ?thesis by (simp add: sint_uint)
qed

lemma uint_double:
  fixes w :: u64
  assumes "2 * uint w < 2 ^ 64"
  shows "uint (w * 2) = 2 * uint w"
proof -
  have "uint w * uint (2 :: u64) < 2 ^ LENGTH(64)" using assms by simp
  then have "uint (w * 2) = uint w * uint (2 :: u64)" by (simp only: uint_mult_lem)
  then show ?thesis by simp
qed

lemma uint_plus:
  fixes a b :: u64
  assumes "uint a + uint b < 2 ^ 64"
  shows "uint (a + b) = uint a + uint b"
proof -
  have "uint a + uint b < 2 ^ LENGTH(64)" using assms by simp
  then show ?thesis by (simp only: uint_add_lem)
qed

lemma ptable_cursor_increases:
  assumes b: "ptable_body cfg i p st = Inr st'" and sz: "part_size p \<noteq> 0"
    and k: "kb_align cfg = 0"
    and t: "0 < sint (sectors cfg)" and c: "0 < sint (heads cfg * sectors cfg)"
    and h1: "uint (pt_sect st) + sint (sectors cfg) + 2 * uint (part_size p) < 2 ^ 63"
    and h2: "2 * uint (part_start p) + 2 * uint (part_size p) < 2 ^ 63"
  shows "pt_sect st < pt_sect st'"
proof -
  from ptable_body_placed [OF b sz] k obtain start where
    e: "part_start p \<noteq> 0 \<longrightarrow>
          start = part_start p * 2 \<and> \<not> part_start p * 2 < ptable_cursor cfg st"
    and n: "part_start p = 0 \<longrightarrow> start = ptable_cursor cfg st"
    and r: "round_to_cyl cfg (start + part_size p * 2) = Some (pt_sect st')"
    by auto
  have ut: "uint (scast (sectors cfg) :: u64) = sint (sectors cfg)"
    using uint_eq_sint_nonneg(1) [of "scast (sectors cfg)"] t
    by (simp only: sint_scast_u32_u64)
  have uc: "uint (ptable_cursor cfg st) = uint (pt_sect st) + sint (sectors cfg)"
  proof -
    have "uint (pt_sect st) + uint (scast (sectors cfg) :: u64) < 2 ^ 64"
      using ut h1 uint_ge_0 [of "part_size p"] unfolding pow2_63_64 by linarith
    from uint_plus [OF this] ut show ?thesis by (simp add: ptable_cursor_def)
  qed
  have us: "uint (part_size p * 2) = 2 * uint (part_size p)"
  proof -
    have "2 * uint (part_size p) < 2 ^ 64"
      using h2 uint_ge_0 [of "part_start p"] unfolding pow2_63_64 by linarith
    then show ?thesis by (rule uint_double)
  qed
  have st: "uint (pt_sect st) < uint start \<and> uint start + 2 * uint (part_size p) < 2 ^ 63"
  proof (cases "part_start p = 0")
    case True
    with n uc t h1 uint_ge_0 [of "part_size p"] show ?thesis by simp
  next
    case False
    have "2 * uint (part_start p) < 2 ^ 64"
      using h2 uint_ge_0 [of "part_size p"] unfolding pow2_63_64 by linarith
    then have "uint (part_start p * 2) = 2 * uint (part_start p)"
      by (rule uint_double)
    moreover from False e have "start = part_start p * 2"
      and "uint (ptable_cursor cfg st) \<le> uint start"
      by (simp_all add: word_less_def not_less)
    ultimately show ?thesis using uc t h2 by simp
  qed
  have u0: "uint (start + part_size p * 2) = uint start + 2 * uint (part_size p)"
  proof -
    have "uint start + uint (part_size p * 2) < 2 ^ 64"
      using st us unfolding pow2_63_64 by linarith
    from uint_plus [OF this] us show ?thesis by simp
  qed
  with st have "uint (start + part_size p * 2) < 2 ^ 63" by simp
  then have "0 \<le> sint (start + part_size p * 2)"
    by (simp add: sint_eq_uint_small)
  from round_to_cyl_up [OF c this] r
  have "uint (start + part_size p * 2) < uint (pt_sect st')" by simp
  with u0 st uint_ge_0 [of "part_size p"] have "uint (pt_sect st) < uint (pt_sect st')"
    by linarith
  then show ?thesis by (simp add: word_less_def)
qed

text \<open>
  C10 (as amended). Whenever \<^verbatim>\<open>heads * sectors\<close> is positive, \<^verbatim>\<open>round_to_cyl\<close> maps every
  sector number that is non-negative as a \<^verbatim>\<open>long\<close> to a strictly larger multiple of
  \<^verbatim>\<open>heads * sectors\<close>; a sector already on a cylinder boundary is advanced by one full
  cylinder. Hence in unaligned MBR mode the cursor \<^verbatim>\<open>sect\<close> strictly increases with every
  partition laid out, provided the sectors per track are positive and the sector
  arithmetic of the iteration stays below \<open>2 ^ 63\<close>: cursor plus one track plus twice the
  size, and twice the explicit start plus twice the size.
\<close>

theorem round_to_cyl_strict:
  assumes "0 < sint (heads cfg * sectors cfg)"
  shows "(\<forall>s. 0 \<le> sint s \<longrightarrow>
           (\<exists>r. round_to_cyl cfg s = Some r
              \<and> uint s < uint r
              \<and> sint (heads cfg * sectors cfg) dvd uint r
              \<and> (sint (heads cfg * sectors cfg) dvd uint s
                   \<longrightarrow> uint r = uint s + sint (heads cfg * sectors cfg))))
    \<and> (\<forall>i p st st'.
          ptable_body cfg i p st = Inr st' \<and> part_size p \<noteq> 0 \<and> kb_align cfg = 0
          \<and> 0 < sint (sectors cfg)
          \<and> uint (pt_sect st) + sint (sectors cfg) + 2 * uint (part_size p) < 2 ^ 63
          \<and> 2 * uint (part_start p) + 2 * uint (part_size p) < 2 ^ 63
          \<longrightarrow> pt_sect st < pt_sect st')"
proof -
  have 1: "\<exists>r. round_to_cyl cfg s = Some r
              \<and> uint s < uint r
              \<and> sint (heads cfg * sectors cfg) dvd uint r
              \<and> (sint (heads cfg * sectors cfg) dvd uint s
                   \<longrightarrow> uint r = uint s + sint (heads cfg * sectors cfg))"
    if "0 \<le> sint s" for s
    using round_to_cyl_up [OF assms that] by blast
  have 2: "pt_sect st < pt_sect st'"
    if "ptable_body cfg i p st = Inr st' \<and> part_size p \<noteq> 0 \<and> kb_align cfg = 0
          \<and> 0 < sint (sectors cfg)
          \<and> uint (pt_sect st) + sint (sectors cfg) + 2 * uint (part_size p) < 2 ^ 63
          \<and> 2 * uint (part_start p) + 2 * uint (part_size p) < 2 ^ 63"
    for i p st st'
    using that ptable_cursor_increases [of cfg i p st st', OF _ _ _ _ assms] by blast
  from 1 2 show ?thesis by blast
qed

text \<open>
  C10 as stated fails where the 64-bit arithmetic wraps. The request
  \<^verbatim>\<open>-p 1@9223372036854775303\<close> with 16 heads and 63 sectors, no alignment: twice the
  start is \<open>2 ^ 64 - 1010\<close>, not below the first sector considered; the end
  \<open>2 ^ 64 - 1008\<close> is \<open>- 1008\<close> as a \<^verbatim>\<open>long\<close>, which \<^verbatim>\<open>round_to_cyl\<close> takes to 0. The
  partition is laid out and the cursor is 0 before and after it.
\<close>

theorem round_to_cyl_strict_counterexample:
  "map_sum id pt_sect
      (ptable_body mbr_config 0 (request 1 9223372036854775303) ptable_init) = Inr 0
   \<and> pt_sect ptable_init = 0
   \<and> kb_align mbr_config = 0
   \<and> part_size (request 1 9223372036854775303) \<noteq> 0
   \<and> part_start (request 1 9223372036854775303) * 2
      + part_size (request 1 9223372036854775303) * 2 = 18446744073709550608
   \<and> round_to_cyl mbr_config 18446744073709550608 = Some 0
   \<and> heads mbr_config * sectors mbr_config = 1008"
  by code_simp


theorem round_to_cyl_strict_witness:
  "0 < sint (heads mbr_config * sectors mbr_config)
   \<and> 0 \<le> sint (2016 :: u64)
   \<and> sint (heads mbr_config * sectors mbr_config) dvd uint (2016 :: u64)
   \<and> (\<exists>r. round_to_cyl mbr_config 2016 = Some r
          \<and> uint (2016 :: u64) < uint r
          \<and> sint (heads mbr_config * sectors mbr_config) dvd uint r
          \<and> uint r = uint (2016 :: u64) + sint (heads mbr_config * sectors mbr_config))
   \<and> part_size (request 1024 0) \<noteq> 0 \<and> kb_align mbr_config = 0
   \<and> 0 < sint (sectors mbr_config)
   \<and> uint (pt_sect ptable_init) + sint (sectors mbr_config)
        + 2 * uint (part_size (request 1024 0)) < 2 ^ 63
   \<and> 2 * uint (part_start (request 1024 0)) + 2 * uint (part_size (request 1024 0)) < 2 ^ 63
   \<and> (\<exists>st'. ptable_body mbr_config 0 (request 1024 0) ptable_init = Inr st'
          \<and> pt_sect ptable_init < pt_sect st')"
proof -
  have c: "0 < sint (heads mbr_config * sectors mbr_config)"
    by (simp add: mbr_config_def)
  have s: "0 \<le> sint (2016 :: u64)"
    "sint (heads mbr_config * sectors mbr_config) dvd uint (2016 :: u64)"
    by (simp_all add: mbr_config_def)
  have h: "part_size (request 1024 0) \<noteq> 0" "kb_align mbr_config = 0"
    "0 < sint (sectors mbr_config)"
    "uint (pt_sect ptable_init) + sint (sectors mbr_config)
        + 2 * uint (part_size (request 1024 0)) < 2 ^ 63"
    "2 * uint (part_start (request 1024 0)) + 2 * uint (part_size (request 1024 0)) < 2 ^ 63"
    by (simp_all add: request_def mbr_config_def ptable_init_def)
  from ptable_body_succeeds [OF h(1), of ptable_init mbr_config 0]
  obtain st' where b: "ptable_body mbr_config 0 (request 1024 0) ptable_init = Inr st'"
    by (auto simp: mbr_config_def request_def)
  note T = round_to_cyl_strict [OF c]
  from T s have 1: "\<exists>r. round_to_cyl mbr_config 2016 = Some r
          \<and> uint (2016 :: u64) < uint r
          \<and> sint (heads mbr_config * sectors mbr_config) dvd uint r
          \<and> uint r = uint (2016 :: u64) + sint (heads mbr_config * sectors mbr_config)"
    by blast
  from T b h have 2: "pt_sect ptable_init < pt_sect st'" by blast
  from c s h b 1 2 show ?thesis by blast
qed

subsection \<open>Zero-sized requests\<close>

lemma init_utf16_loop_None_buf:
  "init_utf16_loop str bufsize i n buf = None \<longleftrightarrow> init_utf16_loop str bufsize i n buf' = None"
proof (induction str bufsize i n buf arbitrary: buf' rule: init_utf16_loop.induct)
  case (1 str bufsize i n buf)
  note s = init_utf16_loop.simps [of str bufsize i n]
  show ?case
  proof (cases "i < bufsize")
    case False
    then show ?thesis by (simp add: s)
  next
    case lt: True
    show ?thesis
    proof (cases "str_at str n")
      case None
      with lt show ?thesis by (simp add: s)
    next
      case (Some c)
      consider (z) "c = 0" | (a) "c \<noteq> 0" "c AND 0x80 = 0"
        | (b) "c \<noteq> 0" "c AND 0x80 \<noteq> 0" "c AND 0xE0 = 0xC0"
        | (t) "c \<noteq> 0" "c AND 0x80 \<noteq> 0" "c AND 0xE0 \<noteq> 0xC0" "c AND 0xF0 = 0xE0"
        | (o) "c \<noteq> 0" "c AND 0x80 \<noteq> 0" "c AND 0xE0 \<noteq> 0xC0" "c AND 0xF0 \<noteq> 0xE0"
        by blast
      then show ?thesis
      proof cases
        case z
        with lt Some show ?thesis by (simp add: s)
      next
        case a
        have e: "init_utf16_loop str bufsize i n b
            = init_utf16_loop str bufsize (i + 1) (n + 1) (b[i := ucast c])" for b
          using lt Some a by (simp add: s)
        from "1.IH"(1) [OF lt Some a, of "buf'[i := ucast c]"]
        show ?thesis by (simp only: e)
      next
        case b
        show ?thesis
        proof (cases "str_at str (n + 1)")
          case None
          with lt Some b show ?thesis by (simp add: s)
        next
          case c1: (Some c1)
          have e: "init_utf16_loop str bufsize i n b
            = init_utf16_loop str bufsize (i + 1) (n + 2)
                (b[i := push_bit 6 (ucast (c AND 0x1F)) OR ucast (c1 AND 0x3F)])" for b
            using lt Some b c1 by (simp add: s)
          from "1.IH"(2) [OF lt Some b c1,
              of "buf'[i := push_bit 6 (ucast (c AND 0x1F)) OR ucast (c1 AND 0x3F)]"]
          show ?thesis by (simp only: e)
        qed
      next
        case t
        show ?thesis
        proof (cases "str_at str (n + 1)")
          case None
          with lt Some t show ?thesis by (simp add: s)
        next
          case c1: (Some c1)
          show ?thesis
          proof (cases "str_at str (n + 2)")
            case None
            with lt Some t c1 show ?thesis by (simp add: s)
          next
            case c2: (Some c2)
            have e: "init_utf16_loop str bufsize i n b
              = init_utf16_loop str bufsize (i + 1) (n + 3)
                  (b[i := push_bit 12 (ucast (c AND 0x0F))
                          OR push_bit 6 (ucast (c1 AND 0x3F))
                          OR ucast (c2 AND 0x3F)])" for b
              using lt Some t c1 c2 by (simp add: s)
            from "1.IH"(3) [OF lt Some t c1 c2,
                of "buf'[i := push_bit 12 (ucast (c AND 0x0F))
                          OR push_bit 6 (ucast (c1 AND 0x3F))
                          OR ucast (c2 AND 0x3F)]"]
            show ?thesis by (simp only: e)
          qed
        qed
      next
        case o
        have e: "init_utf16_loop str bufsize i n b
            = init_utf16_loop str bufsize (i + 1) (n + 1) (b[i := 0x3F])" for b
          using lt Some o by (simp add: s)
        from "1.IH"(4) [OF lt Some o, of "buf'[i := 0x3F]"]
        show ?thesis by (simp only: e)
      qed
    qed
  qed
qed

lemma ptable_body_rel:
  assumes "pt_sect a = pt_sect b" "pt_report a = pt_report b" "pt_placed a = pt_placed b"
  shows "(\<exists>e. ptable_body cfg i p a = Inl e \<and> ptable_body cfg j p b = Inl e)
       \<or> (\<exists>a' b'. ptable_body cfg i p a = Inr a' \<and> ptable_body cfg j p b = Inr b'
             \<and> pt_sect a' = pt_sect b' \<and> pt_report a' = pt_report b'
             \<and> pt_placed a' = pt_placed b')"
proof (cases "part_size p = 0")
  case True
  with assms show ?thesis by (simp add: ptable_body_skip)
next
  case sz: False
  show ?thesis
  proof (cases "part_start p \<noteq> 0 \<and> part_start p * 2 < pt_sect a + scast (sectors cfg)")
    case True
    with sz assms(1) show ?thesis
      by (simp add: ptable_body_overlap ptable_cursor_def)
  next
    case False
    define start where "start = (if part_start p \<noteq> 0 then part_start p * 2
                  else if kb_align cfg \<noteq> 0
                       then round_to_kb cfg (pt_sect a + scast (sectors cfg))
                       else pt_sect a + scast (sectors cfg))"
    define r where "r = (if kb_align cfg = 0 then round_to_cyl cfg (start + part_size p * 2)
              else Some (start + part_size p * 2))"
    note A = ptable_body_unfold [OF sz False start_def r_def, of i]
    from False assms(1) have Fb:
      "\<not> (part_start p \<noteq> 0 \<and> part_start p * 2 < pt_sect b + scast (sectors cfg))" by simp
    note B = ptable_body_unfold [OF sz Fb start_def [unfolded assms(1)] r_def, of j]
    show ?thesis unfolding A B using assms(2,3)
      by (simp split: option.splits)
  qed
qed

lemma init_utf16_None_buf:
  "init_utf16 str buf bufsize = None \<longleftrightarrow> init_utf16 str buf' bufsize = None"
  unfolding init_utf16_def by (rule init_utf16_loop_None_buf)

lemma gptable_hybrid_rel:
  "(gptable_hybrid cfg i p s e (tbl, k) = None \<and> gptable_hybrid cfg j p s e (tbl', k) = None)
   \<or> (\<exists>t1 t2 k'. gptable_hybrid cfg i p s e (tbl, k) = Some (t1, k')
        \<and> gptable_hybrid cfg j p s e (tbl', k) = Some (t2, k'))"
  by (simp add: gptable_hybrid_def Let_def split: option.splits)

lemma gptable_body_rel:
  assumes "gp_sect a = gp_sect b" "gp_pmbr a = gp_pmbr b" "gp_report a = gp_report b"
  shows "(\<exists>e. gptable_body cfg guid i p a = Inl e \<and> gptable_body cfg guid j p b = Inl e)
       \<or> (\<exists>a' b'. gptable_body cfg guid i p a = Inr a' \<and> gptable_body cfg guid j p b = Inr b'
             \<and> gp_sect a' = gp_sect b' \<and> gp_pmbr a' = gp_pmbr b'
             \<and> gp_report a' = gp_report b')"
proof (cases "part_size p = 0")
  case True
  with assms show ?thesis by (simp add: gptable_body_skip)
next
  case sz: False
  show ?thesis
  proof (cases "part_start p \<noteq> 0 \<and> part_start p * 2 < gp_sect a")
    case True
    with sz assms(1) show ?thesis by (simp add: gptable_body_overlap)
  next
    case ov: False
    from ov assms(1) have ovb: "\<not> (part_start p \<noteq> 0 \<and> part_start p * 2 < gp_sect b)"
      by simp
    define start where "start = (if part_start p \<noteq> 0 then part_start p * 2
                  else if kb_align cfg \<noteq> 0 then round_to_kb cfg (gp_sect a)
                       else gp_sect a)"
    note sb = start_def [unfolded assms(1)]
    show ?thesis
    proof (cases "gpt_last_usable_sector cfg > 0
            \<and> start + part_size p * 2 > gpt_last_usable_sector cfg + 1")
      case True
      from gptable_body_out_of_space [OF sz ov start_def True]
        gptable_body_out_of_space [OF sz ovb sb True]
      show ?thesis by simp
    next
      case sp: False
      note A = gptable_body_unfold [OF sz ov start_def sp, of guid i]
      note B = gptable_body_unfold [OF sz ovb sb sp, of guid j]
      from gptable_hybrid_rel [of cfg i p start "start + part_size p * 2" "gp_pte a"
          "gp_pmbr a" j "gp_pte b"]
      show ?thesis
      proof
        assume "gptable_hybrid cfg i p start (start + part_size p * 2) (gp_pte a, gp_pmbr a)
            = None
          \<and> gptable_hybrid cfg j p start (start + part_size p * 2) (gp_pte b, gp_pmbr a)
            = None"
        then show ?thesis unfolding A B assms(2) [symmetric] by simp
      next
        assume "\<exists>t1 t2 k'.
            gptable_hybrid cfg i p start (start + part_size p * 2) (gp_pte a, gp_pmbr a)
              = Some (t1, k')
          \<and> gptable_hybrid cfg j p start (start + part_size p * 2) (gp_pte b, gp_pmbr a)
              = Some (t2, k')"
        then obtain t1 t2 k' where
          h: "gptable_hybrid cfg i p start (start + part_size p * 2) (gp_pte a, gp_pmbr a)
              = Some (t1, k')"
          "gptable_hybrid cfg j p start (start + part_size p * 2) (gp_pte b, gp_pmbr a)
              = Some (t2, k')" by blast
        show ?thesis
        proof (cases "part_name p")
          case None
          then show ?thesis unfolding A B assms(2) [symmetric] using h assms(3) by simp
        next
          case (Some str)
          from init_utf16_None_buf [of str "gpte_name (gp_gpte a ! i)"
              "GPT_ENTRY_NAME_SIZE div 2" "gpte_name (gp_gpte b ! j)"]
          show ?thesis unfolding A B assms(2) [symmetric] using h assms(3) Some
            by (auto split: option.splits)
        qed
      qed
    qed
  qed
qed

lemma run_io_ret_length:
  "length xs = length ys \<Longrightarrow> fst (run_io ok k xs) = fst (run_io ok k ys)"
proof (induction xs arbitrary: ys k)
  case Nil
  then show ?case by simp
next
  case (Cons x xs)
  then obtain y ys' where ys: "ys = y # ys'" "length xs = length ys'"
    by (cases ys) auto
  from Cons.IH [OF ys(2), of "Suc k"] ys show ?case
    by (auto split: prod.splits)
qed

lemma ptable_loop_filter:
  assumes "ignore_null_sized_partition cfg"
    "pt_sect a = pt_sect b" "pt_report a = pt_report b" "pt_placed a = pt_placed b"
  shows "(\<exists>e. ptable_loop cfg i ps a = Inl e
            \<and> ptable_loop cfg j (filter (\<lambda>q. part_size q \<noteq> 0) ps) b = Inl e)
       \<or> (\<exists>a' b'. ptable_loop cfg i ps a = Inr a'
            \<and> ptable_loop cfg j (filter (\<lambda>q. part_size q \<noteq> 0) ps) b = Inr b'
            \<and> pt_sect a' = pt_sect b' \<and> pt_report a' = pt_report b'
            \<and> pt_placed a' = pt_placed b')"
  using assms(2-)
proof (induction ps arbitrary: i j a b)
  case Nil
  then show ?case by simp
next
  case (Cons p ps)
  show ?case
  proof (cases "part_size p = 0")
    case True
    with assms(1) have "ptable_body cfg i p a = Inr a" by (simp add: ptable_body_skip)
    with True Cons.IH [OF Cons.prems, of "Suc i" j] show ?thesis by simp
  next
    case False
    from ptable_body_rel [OF Cons.prems, of cfg i p j]
    show ?thesis
    proof
      assume "\<exists>e. ptable_body cfg i p a = Inl e \<and> ptable_body cfg j p b = Inl e"
      with False show ?thesis by auto
    next
      assume "\<exists>a' b'. ptable_body cfg i p a = Inr a' \<and> ptable_body cfg j p b = Inr b'
             \<and> pt_sect a' = pt_sect b' \<and> pt_report a' = pt_report b'
             \<and> pt_placed a' = pt_placed b'"
      then obtain a' b' where ab: "ptable_body cfg i p a = Inr a'"
        "ptable_body cfg j p b = Inr b'"
        and r: "pt_sect a' = pt_sect b'" "pt_report a' = pt_report b'"
          "pt_placed a' = pt_placed b'" by blast
      from Cons.IH [OF r, of "Suc i" "Suc j"] ab False show ?thesis by simp
    qed
  qed
qed

lemma ptable_printed_filter:
  assumes "ignore_null_sized_partition cfg"
    "pt_sect a = pt_sect b" "pt_report a = pt_report b" "pt_placed a = pt_placed b"
  shows "ptable_printed cfg i ps a
           = ptable_printed cfg j (filter (\<lambda>q. part_size q \<noteq> 0) ps) b"
  using assms(2-)
proof (induction ps arbitrary: i j a b)
  case Nil
  then show ?case by simp
next
  case (Cons p ps)
  show ?case
  proof (cases "part_size p = 0")
    case True
    with assms(1) have "ptable_body cfg i p a = Inr a" by (simp add: ptable_body_skip)
    with True Cons.IH [OF Cons.prems, of "Suc i" j] show ?thesis by simp
  next
    case False
    from ptable_body_rel [OF Cons.prems, of cfg i p j]
    show ?thesis
    proof
      assume "\<exists>e. ptable_body cfg i p a = Inl e \<and> ptable_body cfg j p b = Inl e"
      with False Cons.prems(2) show ?thesis by auto
    next
      assume "\<exists>a' b'. ptable_body cfg i p a = Inr a' \<and> ptable_body cfg j p b = Inr b'
             \<and> pt_sect a' = pt_sect b' \<and> pt_report a' = pt_report b'
             \<and> pt_placed a' = pt_placed b'"
      then obtain a' b' where ab: "ptable_body cfg i p a = Inr a'"
        "ptable_body cfg j p b = Inr b'"
        and r: "pt_sect a' = pt_sect b'" "pt_report a' = pt_report b'"
          "pt_placed a' = pt_placed b'" by blast
      from Cons.IH [OF r, of "Suc i" "Suc j"] ab False show ?thesis by simp
    qed
  qed
qed

lemma ptable_loop_filter_layout:
  assumes "ignore_null_sized_partition cfg"
  shows "map_sum id (\<lambda>s. (pt_sect s, pt_placed s)) (ptable_loop cfg 0 ps ptable_init)
       = map_sum id (\<lambda>s. (pt_sect s, pt_placed s))
           (ptable_loop cfg 0 (filter (\<lambda>q. part_size q \<noteq> 0) ps) ptable_init)"
  using ptable_loop_filter [OF assms refl refl refl, where a = ptable_init and i = 0
      and j = 0 and ps = ps]
  by auto

lemma gen_ptable_filter:
  assumes "ignore_null_sized_partition cfg"
  shows "ret (gen_ptable ok cfg filename signature parts)
           = ret (gen_ptable ok cfg filename signature (filter (\<lambda>q. part_size q \<noteq> 0) parts))
       \<and> report (gen_ptable ok cfg filename signature parts)
           = report (gen_ptable ok cfg filename signature
               (filter (\<lambda>q. part_size q \<noteq> 0) parts))"
proof -
  note pr = ptable_printed_filter [OF assms refl refl refl, where a = ptable_init and i = 0
      and j = 0 and ps = parts]
  from ptable_loop_filter [OF assms refl refl refl, where a = ptable_init and i = 0
      and j = 0 and ps = parts]
  show ?thesis
  proof
    assume "\<exists>e. ptable_loop cfg 0 parts ptable_init = Inl e
            \<and> ptable_loop cfg 0 (filter (\<lambda>q. part_size q \<noteq> 0) parts) ptable_init = Inl e"
    with pr show ?thesis by (auto simp: gen_ptable_def)
  next
    assume "\<exists>a' b'. ptable_loop cfg 0 parts ptable_init = Inr a'
            \<and> ptable_loop cfg 0 (filter (\<lambda>q. part_size q \<noteq> 0) parts) ptable_init = Inr b'
            \<and> pt_sect a' = pt_sect b' \<and> pt_report a' = pt_report b'
            \<and> pt_placed a' = pt_placed b'"
    then obtain a' b' where l: "ptable_loop cfg 0 parts ptable_init = Inr a'"
      "ptable_loop cfg 0 (filter (\<lambda>q. part_size q \<noteq> 0) parts) ptable_init = Inr b'"
      and r: "pt_report a' = pt_report b'" by blast
    have "fst (run_io ok 0 (Open filename # mbr_script signature (pt_pte a')))
        = fst (run_io ok 0 (Open filename # mbr_script signature (pt_pte b')))"
      by (rule run_io_ret_length) (simp add: mbr_script_def)
    with l r show ?thesis
      by (auto simp: gen_ptable_def split: prod.splits)
  qed
qed

lemma gptable_loop_filter:
  assumes "ignore_null_sized_partition cfg"
    "gp_sect a = gp_sect b" "gp_pmbr a = gp_pmbr b" "gp_report a = gp_report b"
  shows "(\<exists>e. gptable_loop cfg guid i ps a = Inl e
            \<and> gptable_loop cfg guid j (filter (\<lambda>q. part_size q \<noteq> 0) ps) b = Inl e)
       \<or> (\<exists>a' b'. gptable_loop cfg guid i ps a = Inr a'
            \<and> gptable_loop cfg guid j (filter (\<lambda>q. part_size q \<noteq> 0) ps) b = Inr b'
            \<and> gp_sect a' = gp_sect b' \<and> gp_pmbr a' = gp_pmbr b'
            \<and> gp_report a' = gp_report b')"
  using assms(2-)
proof (induction ps arbitrary: i j a b)
  case Nil
  then show ?case by simp
next
  case (Cons p ps)
  show ?case
  proof (cases "part_size p = 0")
    case True
    with assms(1) have "gptable_body cfg guid i p a = Inr a" by (simp add: gptable_body_skip)
    with True Cons.IH [OF Cons.prems, of "Suc i" j] show ?thesis by simp
  next
    case False
    from gptable_body_rel [OF Cons.prems, of cfg guid i p j]
    show ?thesis
    proof
      assume "\<exists>e. gptable_body cfg guid i p a = Inl e \<and> gptable_body cfg guid j p b = Inl e"
      with False show ?thesis by auto
    next
      assume "\<exists>a' b'. gptable_body cfg guid i p a = Inr a'
             \<and> gptable_body cfg guid j p b = Inr b'
             \<and> gp_sect a' = gp_sect b' \<and> gp_pmbr a' = gp_pmbr b'
             \<and> gp_report a' = gp_report b'"
      then obtain a' b' where ab: "gptable_body cfg guid i p a = Inr a'"
        "gptable_body cfg guid j p b = Inr b'"
        and r: "gp_sect a' = gp_sect b'" "gp_pmbr a' = gp_pmbr b'"
          "gp_report a' = gp_report b'" by blast
      from Cons.IH [OF r, of "Suc i" "Suc j"] ab False show ?thesis by simp
    qed
  qed
qed

lemma gptable_printed_filter:
  assumes "ignore_null_sized_partition cfg"
    "gp_sect a = gp_sect b" "gp_pmbr a = gp_pmbr b" "gp_report a = gp_report b"
  shows "gptable_printed cfg guid i ps a
           = gptable_printed cfg guid j (filter (\<lambda>q. part_size q \<noteq> 0) ps) b"
  using assms(2-)
proof (induction ps arbitrary: i j a b)
  case Nil
  then show ?case by simp
next
  case (Cons p ps)
  show ?case
  proof (cases "part_size p = 0")
    case True
    with assms(1) have "gptable_body cfg guid i p a = Inr a" by (simp add: gptable_body_skip)
    with True Cons.IH [OF Cons.prems, of "Suc i" j] show ?thesis by simp
  next
    case False
    from gptable_body_rel [OF Cons.prems, of cfg guid i p j]
    show ?thesis
    proof
      assume "\<exists>e. gptable_body cfg guid i p a = Inl e \<and> gptable_body cfg guid j p b = Inl e"
      with False Cons.prems(3) show ?thesis by auto
    next
      assume "\<exists>a' b'. gptable_body cfg guid i p a = Inr a'
             \<and> gptable_body cfg guid j p b = Inr b'
             \<and> gp_sect a' = gp_sect b' \<and> gp_pmbr a' = gp_pmbr b'
             \<and> gp_report a' = gp_report b'"
      then obtain a' b' where ab: "gptable_body cfg guid i p a = Inr a'"
        "gptable_body cfg guid j p b = Inr b'"
        and r: "gp_sect a' = gp_sect b'" "gp_pmbr a' = gp_pmbr b'"
          "gp_report a' = gp_report b'" by blast
      from Cons.IH [OF r, of "Suc i" "Suc j"] ab False show ?thesis by simp
    qed
  qed
qed

lemma gptable_body_parts:
  assumes "gptable_body cfg guid i p st = Inr st'" "part_size p \<noteq> 0"
  shows "gp_parts st' = (gp_parts st)
           [i := p\<lparr>part_actual_start :=
                    (if part_start p \<noteq> 0 then part_start p * 2
                     else if kb_align cfg \<noteq> 0 then round_to_kb cfg (gp_sect st)
                     else gp_sect st)\<rparr>]"
  using gptable_body_placed [OF assms] by auto

lemma gptable_loop_filter_parts:
  assumes ig: "ignore_null_sized_partition cfg"
    and "gp_sect a = gp_sect b" "gp_pmbr a = gp_pmbr b" "gp_report a = gp_report b"
    and "gp_parts a = xs @ ps" "gp_parts b = ys @ filter (\<lambda>q. part_size q \<noteq> 0) ps"
    and "i = length xs" "j = length ys" "filter (\<lambda>q. part_size q \<noteq> 0) xs = ys"
    and "gptable_loop cfg guid i ps a = Inr a'"
    and "gptable_loop cfg guid j (filter (\<lambda>q. part_size q \<noteq> 0) ps) b = Inr b'"
  shows "filter (\<lambda>q. part_size q \<noteq> 0) (gp_parts a') = gp_parts b'"
  using assms(2-)
proof (induction ps arbitrary: i j a b xs ys)
  case Nil
  then show ?case by simp
next
  case (Cons p ps)
  show ?case
  proof (cases "part_size p = 0")
    case True
    with ig have "gptable_body cfg guid i p a = Inr a" by (simp add: gptable_body_skip)
    with Cons.prems(9) have l: "gptable_loop cfg guid (Suc i) ps a = Inr a'" by simp
    from True Cons.prems(10)
    have l': "gptable_loop cfg guid j (filter (\<lambda>q. part_size q \<noteq> 0) ps) b = Inr b'"
      by simp
    have 1: "gp_parts a = (xs @ [p]) @ ps" using Cons.prems(4) by simp
    have 2: "gp_parts b = ys @ filter (\<lambda>q. part_size q \<noteq> 0) ps"
      using Cons.prems(5) True by simp
    have 3: "Suc i = length (xs @ [p])" using Cons.prems(6) by simp
    have 4: "filter (\<lambda>q. part_size q \<noteq> 0) (xs @ [p]) = ys" using Cons.prems(8) True by simp
    from Cons.IH [OF Cons.prems(1-3) 1 2 3 Cons.prems(7) 4 l l'] show ?thesis .
  next
    case False
    from Cons.prems(9) obtain a1 where ba: "gptable_body cfg guid i p a = Inr a1"
      and la: "gptable_loop cfg guid (Suc i) ps a1 = Inr a'"
      by (auto split: sum.splits)
    from Cons.prems(10) False obtain b1 where bb: "gptable_body cfg guid j p b = Inr b1"
      and lb: "gptable_loop cfg guid (Suc j) (filter (\<lambda>q. part_size q \<noteq> 0) ps) b1 = Inr b'"
      by (auto split: sum.splits)
    from gptable_body_rel [OF Cons.prems(1-3), of cfg guid i p j] ba bb
    have r: "gp_sect a1 = gp_sect b1" "gp_pmbr a1 = gp_pmbr b1" "gp_report a1 = gp_report b1"
      by auto
    define p' where "p' = p\<lparr>part_actual_start :=
                    (if part_start p \<noteq> 0 then part_start p * 2
                     else if kb_align cfg \<noteq> 0 then round_to_kb cfg (gp_sect a)
                     else gp_sect a)\<rparr>"
    have sz: "part_size p' \<noteq> 0" using False by (simp add: p'_def)
    from gptable_body_parts [OF ba False] Cons.prems(4,6)
    have 1: "gp_parts a1 = (xs @ [p']) @ ps" by (simp add: p'_def)
    from gptable_body_parts [OF bb False] Cons.prems(1,5,7) False
    have 2: "gp_parts b1 = (ys @ [p']) @ filter (\<lambda>q. part_size q \<noteq> 0) ps"
      by (simp add: p'_def)
    have 3: "Suc i = length (xs @ [p'])" using Cons.prems(6) by simp
    have 4: "Suc j = length (ys @ [p'])" using Cons.prems(7) by simp
    have 5: "filter (\<lambda>q. part_size q \<noteq> 0) (xs @ [p']) = ys @ [p']"
      using Cons.prems(8) sz by simp
    from Cons.IH [OF r 1 2 3 4 5 la lb] show ?thesis .
  qed
qed

lemma gptable_loop_filter_layout:
  assumes "ignore_null_sized_partition cfg"
  shows "map_sum id (\<lambda>s. (gp_sect s, filter (\<lambda>q. part_size q \<noteq> 0) (gp_parts s)))
           (gptable_loop cfg guid 0 ps (gptable_init cfg ps))
       = map_sum id (\<lambda>s. (gp_sect s, gp_parts s))
           (gptable_loop cfg guid 0 (filter (\<lambda>q. part_size q \<noteq> 0) ps)
              (gptable_init cfg (filter (\<lambda>q. part_size q \<noteq> 0) ps)))"
proof -
  let ?f = "filter (\<lambda>q. part_size q \<noteq> 0) ps"
  have i: "gp_sect (gptable_init cfg ps) = gp_sect (gptable_init cfg ?f)"
    "gp_pmbr (gptable_init cfg ps) = gp_pmbr (gptable_init cfg ?f)"
    "gp_report (gptable_init cfg ps) = gp_report (gptable_init cfg ?f)"
    by (simp_all add: gptable_init_def)
  have p: "gp_parts (gptable_init cfg ps) = [] @ ps"
    "gp_parts (gptable_init cfg ?f) = [] @ ?f"
    by (simp_all add: gptable_init_def)
  from gptable_loop_filter [OF assms i, where guid = guid and i = 0 and j = 0 and ps = ps]
  show ?thesis
  proof
    assume "\<exists>e. gptable_loop cfg guid 0 ps (gptable_init cfg ps) = Inl e
            \<and> gptable_loop cfg guid 0 ?f (gptable_init cfg ?f) = Inl e"
    then show ?thesis by auto
  next
    assume "\<exists>a' b'. gptable_loop cfg guid 0 ps (gptable_init cfg ps) = Inr a'
            \<and> gptable_loop cfg guid 0 ?f (gptable_init cfg ?f) = Inr b'
            \<and> gp_sect a' = gp_sect b' \<and> gp_pmbr a' = gp_pmbr b'
            \<and> gp_report a' = gp_report b'"
    then obtain a' b' where l: "gptable_loop cfg guid 0 ps (gptable_init cfg ps) = Inr a'"
      "gptable_loop cfg guid 0 ?f (gptable_init cfg ?f) = Inr b'"
      and r: "gp_sect a' = gp_sect b'" by blast
    have "filter (\<lambda>q. part_size q \<noteq> 0) (gp_parts a') = gp_parts b'"
      by (rule gptable_loop_filter_parts [OF assms i p _ _ _ l]) simp_all
    with l r show ?thesis by simp
  qed
qed

lemma gptable_build_unfold:
  assumes "gptable_loop cfg guid 0 parts (gptable_init cfg parts) = Inr st"
  shows "(\<exists>e. gptable_build cfg guid parts = Inl e
            \<and> (to_chs cfg GPT_HEADER_SECTOR = None
                \<or> to_chs cfg ((if gpt_last_usable_sector cfg = 0 then gp_sect st - 1
                       else gpt_last_usable_sector cfg) + of_nat GPT_SIZE + 1) = None)
            \<and> e = DivideByZero)
       \<or> (\<exists>t. gptable_build cfg guid parts = Inr t \<and> tb_report t = gp_report st
            \<and> to_chs cfg GPT_HEADER_SECTOR \<noteq> None
            \<and> to_chs cfg ((if gpt_last_usable_sector cfg = 0 then gp_sect st - 1
                       else gpt_last_usable_sector cfg) + of_nat GPT_SIZE + 1) \<noteq> None)"
  using assms by (auto simp: gptable_build_def Let_def split: option.splits)

lemma length_gptable_script:
  "length (gptable_script cfg filename signature t)
     = length (gptable_script cfg filename signature t')"
  by (simp add: gptable_script_def gptable_primary_script_def gptable_alternate_script_def
        Let_def mbr_script_def)

lemma gen_gptable_filter:
  assumes "ignore_null_sized_partition cfg"
  shows "ret (gen_gptable ok cfg filename signature guid parts)
           = ret (gen_gptable ok cfg filename signature guid
               (filter (\<lambda>q. part_size q \<noteq> 0) parts))
       \<and> report (gen_gptable ok cfg filename signature guid parts)
           = report (gen_gptable ok cfg filename signature guid
               (filter (\<lambda>q. part_size q \<noteq> 0) parts))"
proof -
  let ?f = "filter (\<lambda>q. part_size q \<noteq> 0) parts"
  have i: "gp_sect (gptable_init cfg parts) = gp_sect (gptable_init cfg ?f)"
    "gp_pmbr (gptable_init cfg parts) = gp_pmbr (gptable_init cfg ?f)"
    "gp_report (gptable_init cfg parts) = gp_report (gptable_init cfg ?f)"
    by (simp_all add: gptable_init_def)
  note pr = gptable_printed_filter [OF assms i, where guid = guid and i = 0 and j = 0
      and ps = parts]
  from gptable_loop_filter [OF assms i, where guid = guid and i = 0 and j = 0 and ps = parts]
  show ?thesis
  proof
    assume "\<exists>e. gptable_loop cfg guid 0 parts (gptable_init cfg parts) = Inl e
            \<and> gptable_loop cfg guid 0 ?f (gptable_init cfg ?f) = Inl e"
    with pr show ?thesis by (auto simp: gen_gptable_def gptable_build_def)
  next
    assume "\<exists>a' b'. gptable_loop cfg guid 0 parts (gptable_init cfg parts) = Inr a'
            \<and> gptable_loop cfg guid 0 ?f (gptable_init cfg ?f) = Inr b'
            \<and> gp_sect a' = gp_sect b' \<and> gp_pmbr a' = gp_pmbr b'
            \<and> gp_report a' = gp_report b'"
    then obtain a' b' where l: "gptable_loop cfg guid 0 parts (gptable_init cfg parts) = Inr a'"
      "gptable_loop cfg guid 0 ?f (gptable_init cfg ?f) = Inr b'"
      and r: "gp_sect a' = gp_sect b'" "gp_report a' = gp_report b'" by blast
    from gptable_build_unfold [OF l(1), unfolded r] gptable_build_unfold [OF l(2)]
    consider (fail) "gptable_build cfg guid parts = Inl DivideByZero"
        "gptable_build cfg guid ?f = Inl DivideByZero"
      | (ok) t t' where "gptable_build cfg guid parts = Inr t"
        "gptable_build cfg guid ?f = Inr t'" "tb_report t = tb_report t'"
      by auto
    then show ?thesis
    proof cases
      case fail
      with pr show ?thesis by (simp add: gen_gptable_def)
    next
      case ok
      from run_io_ret_length [OF length_gptable_script [of cfg filename signature t t'], of ok 0]
        ok show ?thesis
        by (auto simp: gen_gptable_def split: prod.splits)
    qed
  qed
qed

lemma filter_drop_zero_sized:
  "part_size p = 0 \<Longrightarrow>
   filter (\<lambda>q. part_size q \<noteq> 0) (pre @ p # post) = filter (\<lambda>q. part_size q \<noteq> 0) (pre @ post)"
  by simp

lemma ptable_loop_zero_fails:
  assumes "\<not> ignore_null_sized_partition cfg" "p \<in> set ps" "part_size p = 0"
  shows "\<exists>e. ptable_loop cfg i ps st = Inl e"
  using assms(2)
proof (induction ps arbitrary: i st)
  case Nil
  then show ?case by simp
next
  case (Cons q ps)
  show ?case
  proof (cases "ptable_body cfg i q st")
    case (Inl e)
    then show ?thesis by simp
  next
    case (Inr st1)
    with assms(1,3) have "q \<noteq> p" by (auto simp: ptable_body_skip)
    with Cons.prems have "p \<in> set ps" by simp
    from Cons.IH [OF this, of "Suc i" st1] Inr show ?thesis by simp
  qed
qed

lemma gptable_loop_zero_fails:
  assumes "\<not> ignore_null_sized_partition cfg" "p \<in> set ps" "part_size p = 0"
  shows "\<exists>e. gptable_loop cfg guid i ps st = Inl e"
  using assms(2)
proof (induction ps arbitrary: i st)
  case Nil
  then show ?case by simp
next
  case (Cons q ps)
  show ?case
  proof (cases "gptable_body cfg guid i q st")
    case (Inl e)
    then show ?thesis by simp
  next
    case (Inr st1)
    with assms(1,3) have "q \<noteq> p" by (auto simp: gptable_body_skip)
    with Cons.prems have "p \<in> set ps" by simp
    from Cons.IH [OF this, of "Suc i" st1] Inr show ?thesis by simp
  qed
qed

lemma gptable_loop_succeeds:
  assumes "\<forall>p\<in>set ps. part_size p \<noteq> 0 \<and> part_start p = 0 \<and> part_hybrid p = 0
             \<and> part_name p = None"
    "gpt_last_usable_sector cfg = 0"
  shows "\<exists>st'. gptable_loop cfg guid i ps st = Inr st'"
  using assms(1)
proof (induction ps arbitrary: i st)
  case Nil
  then show ?case by simp
next
  case (Cons p ps)
  then have p: "part_size p \<noteq> 0" "part_start p = 0" "part_hybrid p = 0" "part_name p = None"
    by simp_all
  from gptable_body_succeeds [OF p(1) _ assms(2) p(3,4), of st guid i] p(2)
  obtain st1 where "gptable_body cfg guid i p st = Inr st1" by blast
  with Cons.IH [of "Suc i" st1] Cons.prems show ?case by simp
qed

text \<open>
  C3 (as amended). A request list \<open>pre @ p # post\<close> whose request \<open>p\<close> is zero-sized. Skip
  policy unset: both generators return failure and perform no request to the file system,
  so no output file is created; the failure is the invalid-size one whenever the requests
  before \<open>p\<close> are laid out without error (an earlier request that fails decides the
  diagnostic instead), and what has been printed then is the starts and lengths of those
  requests. Skip policy set: the iteration for \<open>p\<close> does not fail and leaves the whole loop
  state, the cursor and the printed numbers included, as it is; and the requests are laid
  out as if \<open>p\<close> were absent: on \<open>pre @ p # post\<close> and on \<open>pre @ post\<close> the loop fails with
  the same error or ends with the same cursor and the same starts and lengths (for
  \<^verbatim>\<open>gen_gptable\<close> the same requests of non-zero size with the same \<^verbatim>\<open>actual_start\<close>), and
  the two runs return the same status and print the same numbers.
\<close>

theorem zero_sized_request:
  assumes "parts = pre @ p # post" and "part_size p = 0"
  shows "(\<not> ignore_null_sized_partition cfg \<longrightarrow>
            ret (gen_ptable ok cfg filename signature parts) \<noteq> None
          \<and> performed (gen_ptable ok cfg filename signature parts) = []
          \<and> ret (gen_gptable ok cfg filename signature guid parts) \<noteq> None
          \<and> performed (gen_gptable ok cfg filename signature guid parts) = []
          \<and> (\<forall>st. ptable_loop cfg 0 pre ptable_init = Inr st
                \<longrightarrow> gen_ptable ok cfg filename signature parts
                      = \<lparr>ret = Some InvalidPartition, report = pt_report st,
                         performed = []\<rparr>)
          \<and> (\<forall>st. gptable_loop cfg guid 0 pre (gptable_init cfg parts) = Inr st
                \<longrightarrow> gen_gptable ok cfg filename signature guid parts
                      = \<lparr>ret = Some InvalidPartition, report = gp_report st,
                         performed = []\<rparr>))
       \<and> (ignore_null_sized_partition cfg \<longrightarrow>
            (\<forall>i st. ptable_body cfg i p st = Inr st)
          \<and> (\<forall>i st. gptable_body cfg guid i p st = Inr st)
          \<and> map_sum id (\<lambda>s. (pt_sect s, pt_placed s)) (ptable_loop cfg 0 parts ptable_init)
              = map_sum id (\<lambda>s. (pt_sect s, pt_placed s))
                  (ptable_loop cfg 0 (pre @ post) ptable_init)
          \<and> ret (gen_ptable ok cfg filename signature parts)
              = ret (gen_ptable ok cfg filename signature (pre @ post))
          \<and> report (gen_ptable ok cfg filename signature parts)
              = report (gen_ptable ok cfg filename signature (pre @ post))
          \<and> map_sum id (\<lambda>s. (gp_sect s, filter (\<lambda>q. part_size q \<noteq> 0) (gp_parts s)))
                (gptable_loop cfg guid 0 parts (gptable_init cfg parts))
              = map_sum id (\<lambda>s. (gp_sect s, filter (\<lambda>q. part_size q \<noteq> 0) (gp_parts s)))
                  (gptable_loop cfg guid 0 (pre @ post) (gptable_init cfg (pre @ post)))
          \<and> ret (gen_gptable ok cfg filename signature guid parts)
              = ret (gen_gptable ok cfg filename signature guid (pre @ post))
          \<and> report (gen_gptable ok cfg filename signature guid parts)
              = report (gen_gptable ok cfg filename signature guid (pre @ post)))"
proof -
  from assms(1) have mem: "p \<in> set parts" by simp
  have n: "ret (gen_ptable ok cfg filename signature parts) \<noteq> None
          \<and> performed (gen_ptable ok cfg filename signature parts) = []
          \<and> ret (gen_gptable ok cfg filename signature guid parts) \<noteq> None
          \<and> performed (gen_gptable ok cfg filename signature guid parts) = []"
    if ni: "\<not> ignore_null_sized_partition cfg"
  proof -
    from ptable_loop_zero_fails [OF ni mem assms(2), of 0 ptable_init]
    obtain e where "ptable_loop cfg 0 parts ptable_init = Inl e" ..
    from gen_ptable_fails [OF this, of ok filename signature]
    have 1: "ret (gen_ptable ok cfg filename signature parts) \<noteq> None
          \<and> performed (gen_ptable ok cfg filename signature parts) = []" by simp
    from gptable_loop_zero_fails [OF ni mem assms(2), of guid 0 "gptable_init cfg parts"]
    obtain e' where "gptable_loop cfg guid 0 parts (gptable_init cfg parts) = Inl e'" ..
    from gen_gptable_fails [OF this, of ok filename signature]
    have "ret (gen_gptable ok cfg filename signature guid parts) \<noteq> None
          \<and> performed (gen_gptable ok cfg filename signature guid parts) = []" by simp
    with 1 show ?thesis by blast
  qed
  have m: "gen_ptable ok cfg filename signature parts
             = \<lparr>ret = Some InvalidPartition, report = pt_report st, performed = []\<rparr>"
    if ni: "\<not> ignore_null_sized_partition cfg"
      and pr: "ptable_loop cfg 0 pre ptable_init = Inr st"
    for st
  proof -
    from ni assms(2) have "ptable_body cfg (length pre) p st = Inl InvalidPartition"
      by (simp add: ptable_body_skip)
    from gen_ptable_fails_at [OF pr this] show ?thesis unfolding assms(1) .
  qed
  have g: "gen_gptable ok cfg filename signature guid parts
             = \<lparr>ret = Some InvalidPartition, report = gp_report st, performed = []\<rparr>"
    if ni: "\<not> ignore_null_sized_partition cfg"
      and pr: "gptable_loop cfg guid 0 pre (gptable_init cfg parts) = Inr st"
    for st
  proof -
    from ni assms(2) have "gptable_body cfg guid (length pre) p st = Inl InvalidPartition"
      by (simp add: gptable_body_skip)
    from gen_gptable_fails_at [OF pr [unfolded assms(1)] this] show ?thesis
      unfolding assms(1) .
  qed
  have s: "ptable_body cfg i p st = Inr st" "gptable_body cfg guid i p gst = Inr gst"
    if "ignore_null_sized_partition cfg" for i st gst
    using that assms(2) by (simp_all add: ptable_body_skip gptable_body_skip)
  note fd = filter_drop_zero_sized [OF assms(2), of pre post, folded assms(1)]
  have l1: "map_sum id (\<lambda>s. (pt_sect s, pt_placed s)) (ptable_loop cfg 0 parts ptable_init)
              = map_sum id (\<lambda>s. (pt_sect s, pt_placed s))
                  (ptable_loop cfg 0 (pre @ post) ptable_init)"
    if ig: "ignore_null_sized_partition cfg"
    using ptable_loop_filter_layout [OF ig, of parts]
      ptable_loop_filter_layout [OF ig, of "pre @ post"]
    by (simp only: fd)
  have l2: "map_sum id (\<lambda>s. (gp_sect s, filter (\<lambda>q. part_size q \<noteq> 0) (gp_parts s)))
                (gptable_loop cfg guid 0 parts (gptable_init cfg parts))
              = map_sum id (\<lambda>s. (gp_sect s, filter (\<lambda>q. part_size q \<noteq> 0) (gp_parts s)))
                  (gptable_loop cfg guid 0 (pre @ post) (gptable_init cfg (pre @ post)))"
    if ig: "ignore_null_sized_partition cfg"
    using gptable_loop_filter_layout [OF ig, of guid parts]
      gptable_loop_filter_layout [OF ig, of guid "pre @ post"]
    by (simp only: fd)
  have f1: "ret (gen_ptable ok cfg filename signature parts)
              = ret (gen_ptable ok cfg filename signature (pre @ post))
          \<and> report (gen_ptable ok cfg filename signature parts)
              = report (gen_ptable ok cfg filename signature (pre @ post))"
    if ig: "ignore_null_sized_partition cfg"
    using gen_ptable_filter [OF ig, of ok filename signature parts]
      gen_ptable_filter [OF ig, of ok filename signature "pre @ post"]
    by (simp only: fd)
  have f2: "ret (gen_gptable ok cfg filename signature guid parts)
              = ret (gen_gptable ok cfg filename signature guid (pre @ post))
          \<and> report (gen_gptable ok cfg filename signature guid parts)
              = report (gen_gptable ok cfg filename signature guid (pre @ post))"
    if ig: "ignore_null_sized_partition cfg"
    using gen_gptable_filter [OF ig, of ok filename signature guid parts]
      gen_gptable_filter [OF ig, of ok filename signature guid "pre @ post"]
    by (simp only: fd)
  from n m g s l1 l2 f1 f2 show ?thesis by blast
qed

text \<open>
  C3 as stated fails in the diagnostic. \<^verbatim>\<open>ptgen -h 16 -s 63 -p 100@1 -p 0\<close>: the first
  request asks for sector 2, below the first track, so the run fails with the
  invalid-start diagnostic before it reaches the zero-sized request.
\<close>

theorem zero_sized_request_counterexample:
  "gen_ptable io_all_ok mbr_config (ascii ''img'') default_signature
       [request 100 1, request 0 0]
     = \<lparr>ret = Some OverlapError, report = [], performed = []\<rparr>
   \<and> part_size (request 0 0) = 0
   \<and> \<not> ignore_null_sized_partition mbr_config"
  by code_simp



theorem zero_sized_request_witness:
  "[request 1024 0, request 0 0, request 2048 0]
     = [request 1024 0] @ request 0 0 # [request 2048 0]
   \<and> part_size (request 0 0) = 0
   \<and> \<not> ignore_null_sized_partition mbr_config
   \<and> \<not> ignore_null_sized_partition gpt_config
   \<and> ignore_null_sized_partition (mbr_config\<lparr>ignore_null_sized_partition := True\<rparr>)
   \<and> ignore_null_sized_partition (gpt_config\<lparr>ignore_null_sized_partition := True\<rparr>)
   \<and> gen_ptable io_all_ok mbr_config (ascii ''img'') default_signature
        [request 1024 0, request 0 0, request 2048 0]
       = \<lparr>ret = Some InvalidPartition, report = [32256, 1516032], performed = []\<rparr>
   \<and> gen_gptable io_all_ok gpt_config (ascii ''img'') default_signature default_guid
        [request 1024 0, request 0 0, request 2048 0]
       = \<lparr>ret = Some InvalidPartition, report = [17408, 1048576], performed = []\<rparr>
   \<and> ptable_body (mbr_config\<lparr>ignore_null_sized_partition := True\<rparr>) 1 (request 0 0)
        ptable_init = Inr ptable_init
   \<and> map_sum id (\<lambda>s. (pt_sect s, pt_placed s))
        (ptable_loop (mbr_config\<lparr>ignore_null_sized_partition := True\<rparr>) 0
           [request 1024 0, request 0 0, request 2048 0] ptable_init)
      = Inr (8064, [(63, 2961), (3087, 4977)])
   \<and> report (gen_ptable io_all_ok (mbr_config\<lparr>ignore_null_sized_partition := True\<rparr>)
              (ascii ''img'') default_signature [request 1024 0, request 0 0, request 2048 0])
      = [32256, 1516032, 1580544, 2548224]
   \<and> ret (gen_ptable io_all_ok (mbr_config\<lparr>ignore_null_sized_partition := True\<rparr>)
              (ascii ''img'') default_signature [request 1024 0, request 0 0, request 2048 0])
      = None
   \<and> map_sum id (\<lambda>s. (gp_sect s, map part_actual_start
                                    (filter (\<lambda>q. part_size q \<noteq> 0) (gp_parts s))))
        (gptable_loop (gpt_config\<lparr>ignore_null_sized_partition := True\<rparr>) default_guid 0
           [request 1024 0, request 0 0, request 2048 0]
           (gptable_init (gpt_config\<lparr>ignore_null_sized_partition := True\<rparr>)
              [request 1024 0, request 0 0, request 2048 0]))
      = Inr (6178, [34, 2082])
   \<and> report (gen_gptable io_all_ok (gpt_config\<lparr>ignore_null_sized_partition := True\<rparr>)
              (ascii ''img'') default_signature default_guid
              [request 1024 0, request 0 0, request 2048 0])
      = [17408, 1048576, 1065984, 2097152]"
proof -
  let ?ps = "[request 1024 0, request 0 0, request 2048 0]"
  let ?qs = "[request 1024 0, request 2048 0]"
  let ?im = "mbr_config\<lparr>ignore_null_sized_partition := True\<rparr>"
  let ?ig = "gpt_config\<lparr>ignore_null_sized_partition := True\<rparr>"
  have d: "?ps = [request 1024 0] @ request 0 0 # [request 2048 0]" by simp
  have a: "part_size (request 0 0) = 0" by (simp add: request_def)
  have c: "\<not> ignore_null_sized_partition mbr_config"
    "\<not> ignore_null_sized_partition gpt_config"
    "ignore_null_sized_partition ?im" "ignore_null_sized_partition ?ig"
    by (simp_all add: mbr_config_def gpt_config_def)
  have q: "[request 1024 0] @ [request 2048 0] = ?qs" by simp
  have "map_sum id pt_report (ptable_loop mbr_config 0 [request 1024 0] ptable_init)
        = Inr [32256, 1516032]"
    by code_simp
  then obtain st1 where l1: "ptable_loop mbr_config 0 [request 1024 0] ptable_init = Inr st1"
    and s1: "pt_report st1 = [32256, 1516032]"
    by (cases "ptable_loop mbr_config 0 [request 1024 0] ptable_init") auto
  have "map_sum id gp_report
          (gptable_loop gpt_config default_guid 0 [request 1024 0] (gptable_init gpt_config ?ps))
        = Inr [17408, 1048576]"
    by code_simp
  then obtain st2 where
    l2: "gptable_loop gpt_config default_guid 0 [request 1024 0] (gptable_init gpt_config ?ps)
          = Inr st2"
    and s2: "gp_report st2 = [17408, 1048576]"
    by (cases "gptable_loop gpt_config default_guid 0 [request 1024 0]
          (gptable_init gpt_config ?ps)") auto
  note M = zero_sized_request [OF d a, where cfg = mbr_config and ok = io_all_ok
      and filename = "ascii ''img''" and signature = default_signature]
  note G = zero_sized_request [OF d a, where cfg = gpt_config and ok = io_all_ok
      and filename = "ascii ''img''" and signature = default_signature
      and guid = default_guid]
  note IM = zero_sized_request [OF d a, where cfg = ?im and ok = io_all_ok
      and filename = "ascii ''img''" and signature = default_signature, unfolded q]
  note IG = zero_sized_request [OF d a, where cfg = ?ig and ok = io_all_ok
      and filename = "ascii ''img''" and signature = default_signature
      and guid = default_guid, unfolded q]
  from M c(1) l1 have 1: "gen_ptable io_all_ok mbr_config (ascii ''img'') default_signature ?ps
       = \<lparr>ret = Some InvalidPartition, report = [32256, 1516032], performed = []\<rparr>"
    unfolding s1 [symmetric] by blast
  from G c(2) l2 have 2: "gen_gptable io_all_ok gpt_config (ascii ''img'') default_signature
        default_guid ?ps
       = \<lparr>ret = Some InvalidPartition, report = [17408, 1048576], performed = []\<rparr>"
    unfolding s2 [symmetric] by blast
  from IM c(3) have 3: "ptable_body ?im 1 (request 0 0) ptable_init = Inr ptable_init"
    by blast
  have e1: "map_sum id (\<lambda>s. (pt_sect s, pt_placed s)) (ptable_loop ?im 0 ?qs ptable_init)
      = Inr (8064, [(63, 2961), (3087, 4977)])"
    by code_simp
  from IM c(3) have "map_sum id (\<lambda>s. (pt_sect s, pt_placed s)) (ptable_loop ?im 0 ?ps ptable_init)
      = map_sum id (\<lambda>s. (pt_sect s, pt_placed s)) (ptable_loop ?im 0 ?qs ptable_init)"
    by blast
  with e1 have 4: "map_sum id (\<lambda>s. (pt_sect s, pt_placed s)) (ptable_loop ?im 0 ?ps ptable_init)
      = Inr (8064, [(63, 2961), (3087, 4977)])" by simp
  have e2: "report (gen_ptable io_all_ok ?im (ascii ''img'') default_signature ?qs)
      = [32256, 1516032, 1580544, 2548224]"
    "ret (gen_ptable io_all_ok ?im (ascii ''img'') default_signature ?qs) = None"
    by code_simp+
  from IM c(3) have "report (gen_ptable io_all_ok ?im (ascii ''img'') default_signature ?ps)
      = report (gen_ptable io_all_ok ?im (ascii ''img'') default_signature ?qs)
    \<and> ret (gen_ptable io_all_ok ?im (ascii ''img'') default_signature ?ps)
      = ret (gen_ptable io_all_ok ?im (ascii ''img'') default_signature ?qs)"
    by blast
  with e2 have 5: "report (gen_ptable io_all_ok ?im (ascii ''img'') default_signature ?ps)
      = [32256, 1516032, 1580544, 2548224]"
    "ret (gen_ptable io_all_ok ?im (ascii ''img'') default_signature ?ps) = None"
    by simp_all
  have e3: "map_sum id (\<lambda>s. ((gp_sect s, map part_actual_start
                                    (filter (\<lambda>q. part_size q \<noteq> 0) (gp_parts s))),
                               gp_report s))
        (gptable_loop ?ig default_guid 0 ?qs (gptable_init ?ig ?qs))
      = Inr ((6178, [34, 2082]), [17408, 1048576, 1065984, 2097152])"
    by code_simp
  then obtain b where lb: "gptable_loop ?ig default_guid 0 ?qs (gptable_init ?ig ?qs) = Inr b"
    and sb: "gp_sect b = 6178"
      "map part_actual_start (filter (\<lambda>q. part_size q \<noteq> 0) (gp_parts b)) = [34, 2082]"
      "gp_report b = [17408, 1048576, 1065984, 2097152]"
    by (cases "gptable_loop ?ig default_guid 0 ?qs (gptable_init ?ig ?qs)") auto
  from IG c(4) have g6: "map_sum id (\<lambda>s. (gp_sect s, filter (\<lambda>q. part_size q \<noteq> 0) (gp_parts s)))
        (gptable_loop ?ig default_guid 0 ?ps (gptable_init ?ig ?ps))
      = map_sum id (\<lambda>s. (gp_sect s, filter (\<lambda>q. part_size q \<noteq> 0) (gp_parts s)))
        (gptable_loop ?ig default_guid 0 ?qs (gptable_init ?ig ?qs))"
    by blast
  have 6: "map_sum id (\<lambda>s. (gp_sect s, map part_actual_start
                                    (filter (\<lambda>q. part_size q \<noteq> 0) (gp_parts s))))
        (gptable_loop ?ig default_guid 0 ?ps (gptable_init ?ig ?ps))
      = Inr (6178, [34, 2082])"
    using g6 sb unfolding lb
    by (cases "gptable_loop ?ig default_guid 0 ?ps (gptable_init ?ig ?ps)") auto
  from gptable_build_succeeds [OF lb] obtain t where
    t: "gptable_build ?ig default_guid ?qs = Inr t"
    by (auto simp: gpt_config_def)
  with gptable_build_unfold [OF lb] have "tb_report t = gp_report b" by auto
  with gen_gptable_all_ok [OF t, of "ascii ''img''" default_signature] sb
  have e4: "report (gen_gptable io_all_ok ?ig (ascii ''img'') default_signature default_guid ?qs)
      = [17408, 1048576, 1065984, 2097152]"
    by (simp add: io_all_ok_eq)
  from IG c(4) have "report (gen_gptable io_all_ok ?ig (ascii ''img'') default_signature
        default_guid ?ps)
      = report (gen_gptable io_all_ok ?ig (ascii ''img'') default_signature default_guid ?qs)"
    by blast
  with e4 have 7: "report (gen_gptable io_all_ok ?ig (ascii ''img'') default_signature
        default_guid ?ps) = [17408, 1048576, 1065984, 2097152]" by simp
  from d a c 1 2 3 4 5 6 7 show ?thesis by blast
qed

subsection \<open>The filler entry\<close>

lemma gptable_body_frame:
  assumes "gptable_body cfg guid i p st = Inr st'"
  shows "length (gp_parts st') = length (gp_parts st)"
    and "length (gp_gpte st') = length (gp_gpte st)"
    and "k \<noteq> i \<Longrightarrow> gp_parts st' ! k = gp_parts st ! k"
    and "k \<noteq> i \<Longrightarrow> gp_gpte st' ! k = gp_gpte st ! k"
proof -
  show "length (gp_parts st') = length (gp_parts st)"
    "length (gp_gpte st') = length (gp_gpte st)"
    using assms gptable_body_placed [OF assms]
    by (cases "part_size p = 0"; auto simp: gptable_body_skip split: if_splits)+
  show "k \<noteq> i \<Longrightarrow> gp_parts st' ! k = gp_parts st ! k"
    "k \<noteq> i \<Longrightarrow> gp_gpte st' ! k = gp_gpte st ! k"
    using assms gptable_body_placed [OF assms]
    by (cases "part_size p = 0"; auto simp: gptable_body_skip split: if_splits)+
qed

lemma gptable_loop_frame:
  assumes "gptable_loop cfg guid i ps st = Inr st'"
  shows "length (gp_parts st') = length (gp_parts st)
    \<and> length (gp_gpte st') = length (gp_gpte st)
    \<and> (\<forall>k<i. gp_parts st' ! k = gp_parts st ! k \<and> gp_gpte st' ! k = gp_gpte st ! k)"
  using assms
proof (induction ps arbitrary: i st)
  case Nil
  then show ?case by simp
next
  case (Cons p ps)
  from Cons.prems obtain st1 where b: "gptable_body cfg guid i p st = Inr st1"
    and l: "gptable_loop cfg guid (Suc i) ps st1 = Inr st'"
    by (auto split: sum.splits)
  from Cons.IH [OF l] gptable_body_frame [OF b] show ?case by auto
qed

lemma gptable_body_types:
  assumes "gptable_body cfg guid i p st = Inr st'" "part_guid p \<noteq> g"
    "\<forall>e\<in>set (gp_gpte st). gpte_type e \<noteq> g"
  shows "\<forall>e\<in>set (gp_gpte st'). gpte_type e \<noteq> g"
proof (cases "part_size p = 0")
  case True
  with assms show ?thesis by (auto simp: gptable_body_skip split: if_splits)
next
  case False
  from gptable_body_placed [OF assms(1) False] assms(2,3) show ?thesis
    by (auto dest!: in_set_updateD)
qed

lemma gptable_loop_types:
  assumes "gptable_loop cfg guid i ps st = Inr st'" "\<forall>p\<in>set ps. part_guid p \<noteq> g"
    "\<forall>e\<in>set (gp_gpte st). gpte_type e \<noteq> g"
  shows "\<forall>e\<in>set (gp_gpte st'). gpte_type e \<noteq> g"
  using assms
proof (induction ps arbitrary: i st)
  case Nil
  then show ?case by simp
next
  case (Cons p ps)
  from Cons.prems(1) obtain st1 where b: "gptable_body cfg guid i p st = Inr st1"
    and l: "gptable_loop cfg guid (Suc i) ps st1 = Inr st'"
    by (auto split: sum.splits)
  from Cons.prems(2) have "part_guid p \<noteq> g" by simp
  from gptable_body_types [OF b this Cons.prems(3)]
  have "\<forall>e\<in>set (gp_gpte st1). gpte_type e \<noteq> g" .
  from Cons.IH [OF l _ this] Cons.prems(2) show ?case by simp
qed


lemma gptable_loop_first:
  assumes l: "gptable_loop cfg guid 0 (p0 # rest) (gptable_init cfg (p0 # rest)) = Inr st"
  shows "length (gp_gpte st) = GPT_ENTRY_MAX"
    and "\<exists>q qs. gp_parts st = q # qs \<and> part_start q = part_start p0
           \<and> (part_size p0 \<noteq> 0 \<longrightarrow>
                  part_actual_start q = gpte_start (gp_gpte st ! 0)
                \<and> (part_start p0 \<noteq> 0 \<longrightarrow> gpte_start (gp_gpte st ! 0) = part_start p0 * 2))
           \<and> (part_size p0 = 0 \<longrightarrow> q = p0)"
proof -
  let ?init = "gptable_init cfg (p0 # rest)"
  from l obtain st1 where b: "gptable_body cfg guid 0 p0 ?init = Inr st1"
    and l1: "gptable_loop cfg guid (Suc 0) rest st1 = Inr st"
    by (auto split: sum.splits)
  note f = gptable_loop_frame [OF l1]
  note g = gptable_body_frame [OF b]
  have il: "length (gp_gpte ?init) = GPT_ENTRY_MAX" "gp_parts ?init = p0 # rest"
    by (simp_all add: gptable_init_def)
  from f g il show "length (gp_gpte st) = GPT_ENTRY_MAX" by simp
  have len: "length (gp_parts st) = Suc (length rest)" using f g il by simp
  then obtain q qs where q: "gp_parts st = q # qs" by (cases "gp_parts st") auto
  from f q have q0: "q = gp_parts st1 ! 0" by auto
  from f have e0: "gp_gpte st ! 0 = gp_gpte st1 ! 0" by auto
  have 1: "part_start q = part_start p0 \<and> part_actual_start q = gpte_start (gp_gpte st ! 0)
        \<and> (part_start p0 \<noteq> 0 \<longrightarrow> gpte_start (gp_gpte st ! 0) = part_start p0 * 2)"
    if sz: "part_size p0 \<noteq> 0"
  proof -
    from gptable_body_placed [OF b sz] obtain start e where
      p: "gp_parts st1 = (gp_parts ?init)[0 := p0\<lparr>part_actual_start := start\<rparr>]"
      and e: "gp_gpte st1 = (gp_gpte ?init)[0 := e]" "gpte_start e = start"
      and s: "part_start p0 \<noteq> 0 \<longrightarrow> start = part_start p0 * 2"
      by blast
    from p il have "gp_parts st1 ! 0 = p0\<lparr>part_actual_start := start\<rparr>" by simp
    moreover from e il have "gpte_start (gp_gpte st1 ! 0) = start"
      by (simp add: GPT_ENTRY_MAX_def)
    ultimately show ?thesis using q0 e0 s by simp
  qed
  have 2: "q = p0" if "part_size p0 = 0"
  proof -
    from b that have "st1 = ?init" by (auto simp: gptable_body_skip split: if_splits)
    with q0 il show ?thesis by simp
  qed
  have 3: "part_start q = part_start p0"
    using 1 2 by (cases "part_size p0 = 0") auto
  from q 1 2 3 show "\<exists>q qs. gp_parts st = q # qs \<and> part_start q = part_start p0
           \<and> (part_size p0 \<noteq> 0 \<longrightarrow>
                  part_actual_start q = gpte_start (gp_gpte st ! 0)
                \<and> (part_start p0 \<noteq> 0 \<longrightarrow> gpte_start (gp_gpte st ! 0) = part_start p0 * 2))
           \<and> (part_size p0 = 0 \<longrightarrow> q = p0)"
    by blast
qed

lemma bios_boot_not_zero: "zero_guid \<noteq> GUID_PARTITION_BIOS_BOOT"
  by code_simp

lemma gptable_build_entries:
  assumes "gptable_build cfg guid parts = Inr t"
  shows "\<exists>st. gptable_loop cfg guid 0 parts (gptable_init cfg parts) = Inr st
           \<and> tb_gpte t = gptable_filler cfg guid (gp_parts st) (gp_gpte st)"
  using assms by (auto simp: gptable_build_def Let_def split: sum.splits option.splits)


text \<open>
  C6. In a GPT build that succeeds, with no request of the BIOS-boot type: the last
  (128th) slot of the entry array is a BIOS-boot entry if and only if the first request is
  laid out, has a non-zero explicit start, and its computed start (the start LBA of entry
  0, which is then twice the explicit start in KByte) lies beyond the first-entry sector
  plus the 32 sectors of the entry array. In that case the slot's start is that sector,
  its inclusive end is one sector before the first partition's start, and its identifier
  is the disk identifier with 128 added to the last byte. (A first request that is
  skipped has the \<^verbatim>\<open>actual_start\<close> 0 of the zero-initialised global.)
\<close>

theorem bios_boot_filler:
  assumes build: "gptable_build cfg guid parts = Inr t"
    and parts: "parts = p0 # rest"
    and types: "\<forall>p\<in>set parts. part_guid p \<noteq> GUID_PARTITION_BIOS_BOOT"
    and init: "part_size p0 = 0 \<longrightarrow> part_actual_start p0 = 0"
  shows "(gpte_type (tb_gpte t ! 127) = GUID_PARTITION_BIOS_BOOT
          \<longleftrightarrow> part_size p0 \<noteq> 0 \<and> part_start p0 \<noteq> 0
              \<and> gpte_start (tb_gpte t ! 0) > gpt_first_entry_sector cfg + 32)
       \<and> (gpte_type (tb_gpte t ! 127) = GUID_PARTITION_BIOS_BOOT \<longrightarrow>
              gpte_start (tb_gpte t ! 127) = gpt_first_entry_sector cfg + 32
            \<and> gpte_end (tb_gpte t ! 127) = gpte_start (tb_gpte t ! 0) - 1
            \<and> gpte_guid (tb_gpte t ! 127) = guid_add_last guid 128)
       \<and> (part_size p0 \<noteq> 0 \<and> part_start p0 \<noteq> 0 \<longrightarrow>
              gpte_start (tb_gpte t ! 0) = part_start p0 * 2)"
proof -
  let ?B = GUID_PARTITION_BIOS_BOOT
  let ?F = "gpt_first_entry_sector cfg + 32"
  from gptable_build_entries [OF build] parts obtain st where
    l: "gptable_loop cfg guid 0 (p0 # rest) (gptable_init cfg (p0 # rest)) = Inr st"
    and tb: "tb_gpte t = gptable_filler cfg guid (gp_parts st) (gp_gpte st)"
    by auto
  from gptable_loop_first [OF l] obtain q qs where
    len: "length (gp_gpte st) = GPT_ENTRY_MAX"
    and q: "gp_parts st = q # qs" "part_start q = part_start p0"
    and q1: "part_size p0 \<noteq> 0 \<longrightarrow>
                  part_actual_start q = gpte_start (gp_gpte st ! 0)
                \<and> (part_start p0 \<noteq> 0 \<longrightarrow> gpte_start (gp_gpte st ! 0) = part_start p0 * 2)"
    and q2: "part_size p0 = 0 \<longrightarrow> q = p0"
    by blast
  have "\<forall>e\<in>set (gp_gpte (gptable_init cfg (p0 # rest))). gpte_type e \<noteq> ?B"
    by (simp add: gptable_init_def zero_gpte_def bios_boot_not_zero)
  from gptable_loop_types [OF l types [unfolded parts] this]
  have ty: "\<forall>e\<in>set (gp_gpte st). gpte_type e \<noteq> ?B" .
  from len have "gp_gpte st ! 127 \<in> set (gp_gpte st)"
    by (simp add: GPT_ENTRY_MAX_def)
  with ty have t127: "gpte_type (gp_gpte st ! 127) \<noteq> ?B" by blast
  define c where "c \<longleftrightarrow> part_start q \<noteq> 0 \<and> part_actual_start q > ?F"
  have F: "gpt_first_entry_sector cfg + of_nat GPT_SIZE = ?F"
    by (simp add: GPT_SIZE_def GPT_ENTRY_SIZE_def GPT_ENTRY_MAX_def DISK_SECTOR_SIZE_def)
  have fil: "tb_gpte t =
      (if c then (gp_gpte st)[127 := (gp_gpte st ! 127)
                     \<lparr>gpte_start := ?F, gpte_end := part_actual_start q - 1,
                      gpte_type := ?B, gpte_guid := guid_add_last guid 128\<rparr>]
       else gp_gpte st)"
    unfolding tb gptable_filler_def q(1) c_def F by (simp add: GPT_ENTRY_MAX_def)
  have t0: "gpte_start (tb_gpte t ! 0) = gpte_start (gp_gpte st ! 0)"
    unfolding fil using len by (simp add: GPT_ENTRY_MAX_def)
  have ceq: "c \<longleftrightarrow> part_size p0 \<noteq> 0 \<and> part_start p0 \<noteq> 0 \<and> gpte_start (tb_gpte t ! 0) > ?F"
  proof (cases "part_size p0 = 0")
    case True
    with q2 init have "part_actual_start q = 0" by simp
    with True show ?thesis by (simp add: c_def)
  next
    case False
    with q1 q(2) t0 show ?thesis by (simp add: c_def)
  qed
  have a: "gpte_type (tb_gpte t ! 127) = ?B \<longleftrightarrow> c"
    unfolding fil using len t127 by (simp add: GPT_ENTRY_MAX_def)
  have b: "gpte_start (tb_gpte t ! 127) = ?F
            \<and> gpte_end (tb_gpte t ! 127) = gpte_start (tb_gpte t ! 0) - 1
            \<and> gpte_guid (tb_gpte t ! 127) = guid_add_last guid 128" if c
  proof -
    from that ceq have "part_size p0 \<noteq> 0" by simp
    with q1 t0 have "part_actual_start q = gpte_start (tb_gpte t ! 0)" by simp
    then show ?thesis unfolding fil using that len
      by (simp add: GPT_ENTRY_MAX_def)
  qed
  from q1 t0 have d: "part_size p0 \<noteq> 0 \<and> part_start p0 \<noteq> 0 \<longrightarrow>
              gpte_start (tb_gpte t ! 0) = part_start p0 * 2" by simp
  from a b ceq d show ?thesis by blast
qed


theorem bios_boot_filler_witness:
  "part_guid (request 1024 1024) \<noteq> GUID_PARTITION_BIOS_BOOT
   \<and> part_size (request 1024 1024) \<noteq> 0
   \<and> part_actual_start (request 1024 1024) = 0
   \<and> (\<exists>t. gptable_build gpt_config default_guid [request 1024 1024] = Inr t
        \<and> gpte_start (tb_gpte t ! 0) = 2048
        \<and> gpte_type (tb_gpte t ! 127) = GUID_PARTITION_BIOS_BOOT
        \<and> gpte_start (tb_gpte t ! 127) = 34
        \<and> gpte_end (tb_gpte t ! 127) = 2047
        \<and> gpte_guid (tb_gpte t ! 127) = guid_add_last default_guid 128)"
proof -
  let ?p = "request 1024 1024"
  have ty: "\<forall>p\<in>set [?p]. part_guid p \<noteq> GUID_PARTITION_BIOS_BOOT"
    by (simp add: request_def) code_simp
  have i: "part_size ?p = 0 \<longrightarrow> part_actual_start ?p = 0"
    by (simp add: request_def)
  have r: "part_size ?p \<noteq> 0" "part_start ?p \<noteq> 0" "part_start ?p * 2 = 2048"
    "gpt_first_entry_sector gpt_config + 32 = 34" "(34 :: u64) < 2048"
    by (simp_all add: request_def gpt_config_def GPT_FIRST_ENTRY_SECTOR_def)
  have "\<not> part_start ?p * 2 < gp_sect (gptable_init gpt_config [?p])"
    by (simp add: request_def gptable_init_def gpt_config_def GPT_SIZE_def GPT_ENTRY_SIZE_def
          GPT_ENTRY_MAX_def DISK_SECTOR_SIZE_def GPT_FIRST_ENTRY_SECTOR_def)
  from gptable_body_succeeds [OF r(1), of "gptable_init gpt_config [?p]" gpt_config
      default_guid 0] this
  obtain st where "gptable_body gpt_config default_guid 0 ?p (gptable_init gpt_config [?p])
      = Inr st"
    by (auto simp: gpt_config_def request_def)
  then have "gptable_loop gpt_config default_guid 0 [?p] (gptable_init gpt_config [?p])
      = Inr st" by simp
  from gptable_build_succeeds [OF this] obtain t where
    t: "gptable_build gpt_config default_guid [?p] = Inr t"
    by (auto simp: gpt_config_def)
  note T = bios_boot_filler [OF t refl ty i]
  from T r have 0: "gpte_start (tb_gpte t ! 0) = 2048" by simp
  with T r have 1: "gpte_type (tb_gpte t ! 127) = GUID_PARTITION_BIOS_BOOT" by simp
  with T 0 r have 2: "gpte_start (tb_gpte t ! 127) = 34"
    "gpte_end (tb_gpte t ! 127) = 2047"
    "gpte_guid (tb_gpte t ! 127) = guid_add_last default_guid 128" by simp_all
  from ty have ty': "part_guid ?p \<noteq> GUID_PARTITION_BIOS_BOOT" by simp
  have i': "part_actual_start ?p = 0" by (simp add: request_def)
  from ty' r(1) i' t 0 1 2 show ?thesis by blast
qed

subsection \<open>Checksums of the GPT header\<close>

text \<open>The table-driven accumulation is the bit-by-bit CRC32: shifting is linear over
  exclusive-or, and the bits of the register above the low byte are only moved down.\<close>

lemma crc32_shift_step: "crc32_shift n c = (crc32_step ^^ n) c"
proof (induction n arbitrary: c)
  case 0
  show ?case by simp
next
  case (Suc n)
  have "crc32_shift (Suc n) c = crc32_shift n (crc32_step c)"
    by (simp add: crc32_step_def bit_0 and_one_eq mod_2_eq_odd)
  then show ?case by (simp add: Suc funpow_swap1)
qed

lemma crc32_step_xor: "crc32_step (x XOR y) = crc32_step x XOR crc32_step y"
proof -
  have b: "bit (x XOR y) 0 \<longleftrightarrow> bit x 0 \<noteq> bit y 0"
    by (simp only: bit_xor_iff)
  have d: "drop_bit 1 (x XOR y) = drop_bit 1 x XOR drop_bit 1 y"
    by (rule bit_word_eqI) (simp add: bit_drop_bit_eq bit_xor_iff)
  show ?thesis
    unfolding crc32_step_def b d
    by (cases "bit x 0"; cases "bit y 0"; simp add: ac_simps)
qed

lemma crc32_steps_xor:
  "(crc32_step ^^ n) (x XOR y) = (crc32_step ^^ n) x XOR (crc32_step ^^ n) y"
  by (induction n arbitrary: x y) (simp_all add: funpow_swap1 crc32_step_xor)

lemma crc32_steps_high:
  "take_bit n x = 0 \<Longrightarrow> (crc32_step ^^ n) x = drop_bit n x"
proof (induction n arbitrary: x)
  case 0
  show ?case by simp
next
  case (Suc n)
  have bt: "bit (take_bit (Suc n) x) k = False" for k
    unfolding Suc.prems by simp
  from bt [of 0] have e: "\<not> bit x 0"
    by (simp add: bit_take_bit_iff)
  have t: "take_bit n (drop_bit 1 x) = 0"
  proof (rule bit_word_eqI)
    fix k assume "k < LENGTH(32)"
    from bt [of "Suc k"] show "bit (take_bit n (drop_bit 1 x)) k = bit (0 :: u32) k"
      by (simp add: bit_take_bit_iff bit_drop_bit_eq)
  qed
  from e have "crc32_step x = drop_bit 1 x" by (simp add: crc32_step_def)
  with Suc.IH [OF t] show ?case by (simp add: funpow_swap1 drop_bit_drop_bit)
qed

lemma crc32_table_step:
  "crc32_shift 8 ((crc XOR ucast b) AND 0xff) XOR drop_bit 8 crc
     = (crc32_step ^^ 8) (crc XOR ucast (b :: u8))"
proof -
  let ?y = "crc XOR ucast b"
  let ?h = "push_bit 8 (drop_bit 8 crc)"
  have m: "(0xff :: u32) = mask 8" by (simp add: mask_eq_exp_minus_1)
  have s: "?y = (?y AND 0xff) XOR ?h"
    unfolding m
    by (rule bit_word_eqI) (auto simp: bit_simps dest: bit_imp_le_length)
  have h: "take_bit 8 ?h = 0"
    by (rule bit_word_eqI) (simp add: bit_simps)
  have "(crc32_step ^^ 8) ?y = (crc32_step ^^ 8) ((?y AND 0xff) XOR ?h)"
    using s by simp
  also have "\<dots> = (crc32_step ^^ 8) (?y AND 0xff) XOR drop_bit 8 ?h"
    by (simp only: crc32_steps_xor crc32_steps_high [OF h])
  also have "drop_bit 8 ?h = drop_bit 8 crc"
    by (rule bit_word_eqI) (auto simp: bit_simps dest: bit_imp_le_length)
  finally show ?thesis by (simp only: crc32_shift_step)
qed

lemma cyg_crc32_update: "cyg_crc32_accumulate c bs = crc32_update c bs"
  by (induction bs arbitrary: c)
     (simp_all only: cyg_crc32_accumulate.simps crc32_update.simps crc32_table_step)

text \<open>The 32 bits of \<^verbatim>\<open>gpt_crc32\<close> that \<^verbatim>\<open>cpu_to_le32\<close> keeps are the reference checksum.\<close>

lemma gpt_crc32_reference: "(ucast (gpt_crc32 buf) :: u32) = crc32_reference buf"
proof -
  have "(ucast (ucast (x :: u32) XOR (NOT 0 :: u64)) :: u32) = NOT x" for x
    by (rule bit_word_eqI) (auto simp: bit_simps)
  moreover have "(ucast (NOT 0 :: u64) :: u32) = NOT 0"
    by (rule bit_word_eqI) (auto simp: bit_simps)
  ultimately show ?thesis
    by (simp only: gpt_crc32_def crc32_reference_def cyg_crc32_update)
qed

text \<open>The check value of CRC-32.\<close>

lemma funpow8: "(f ^^ 8) x = f (f (f (f (f (f (f (f x)))))))"
  by (simp add: eval_nat_numeral)

lemma crc32_check: "crc32_reference (ascii ''123456789'') = 0xCBF43926"
proof -
  have a: "ascii ''123456789'' = [0x31, 0x32, 0x33, 0x34, 0x35, 0x36, 0x37, 0x38, 0x39]"
    by (simp add: ascii_def)
  have n: "NOT (x :: u32) = x XOR 0xFFFFFFFF" for x
  proof -
    have "(0xFFFFFFFF :: u32) = -1" by simp
    then show ?thesis by (simp only: bit.xor_one_right)
  qed
  show ?thesis unfolding crc32_reference_def a n
    by (simp add: funpow8 crc32_step_def)
qed

text \<open>Fields of the blocks written.\<close>

lemma le_bytes_Suc: "le_bytes (Suc n) w = ucast w # le_bytes n (drop_bit 8 w)"
proof -
  have "[0..<Suc n] = 0 # map Suc [0..<n]"
    by (simp add: upt_conv_Cons map_Suc_upt del: upt_Suc)
  then show ?thesis
    by (simp add: le_bytes_def drop_bit_drop_bit comp_def add.commute del: upt_Suc)
qed

lemma le_word_Cons: "le_word (b # bs) = ucast b OR push_bit 8 (le_word bs)"
  by (simp add: le_word_def)

lemma le_word_le_bytes:
  "(le_word (le_bytes n w) :: 'a::len word) = take_bit (8 * n) (w :: 'a word)"
proof (induction n arbitrary: w)
  case 0
  show ?case by (simp add: le_bytes_def le_word_def)
next
  case (Suc n)
  have "(ucast (ucast w :: u8) :: 'a word) OR push_bit 8 (take_bit (8 * n) (drop_bit 8 w))
      = take_bit (8 * Suc n) w"
  proof (rule bit_word_eqI)
    fix k assume l: "k < LENGTH('a)"
    show "bit ((ucast (ucast w :: u8) :: 'a word)
            OR push_bit 8 (take_bit (8 * n) (drop_bit 8 w))) k
        = bit (take_bit (8 * Suc n) w) k"
    proof (cases "k < 8")
      case True
      with l show ?thesis by (auto simp: bit_simps)
    next
      case False
      then have "8 + (k - 8) = k" by simp
      with False l show ?thesis by (auto simp: bit_simps)
    qed
  qed
  then show ?case by (simp only: le_bytes_Suc le_word_Cons Suc.IH)
qed

lemma le_word_le_bytes_4: "le_word (le_bytes 4 (w :: u32)) = w"
  using take_bit_length_eq [of w] by (simp add: le_word_le_bytes)

lemma le_word_le_bytes_8: "le_word (le_bytes 8 (w :: u64)) = w"
  using take_bit_length_eq [of w] by (simp add: le_word_le_bytes)

lemma le_bytes_zero: "le_bytes n 0 = replicate n 0"
  by (simp add: le_bytes_def map_replicate_const)

lemma le_bytes_8:
  "le_bytes 8 w =
     [ucast w, ucast (drop_bit 8 w), ucast (drop_bit 16 w), ucast (drop_bit 24 w),
      ucast (drop_bit 32 w), ucast (drop_bit 40 w), ucast (drop_bit 48 w),
      ucast (drop_bit 56 w)]"
proof -
  have "(8 :: nat) = Suc (Suc (Suc (Suc (Suc (Suc (Suc (Suc 0)))))))" by simp
  then have "le_bytes 8 w = le_bytes (Suc (Suc (Suc (Suc (Suc (Suc (Suc (Suc 0)))))))) w"
    by (simp only:)
  also have "\<dots> = [ucast w, ucast (drop_bit 8 w), ucast (drop_bit 16 w),
      ucast (drop_bit 24 w), ucast (drop_bit 32 w), ucast (drop_bit 40 w),
      ucast (drop_bit 48 w), ucast (drop_bit 56 w)]"
    by (simp add: le_bytes_Suc le_bytes_def drop_bit_drop_bit)
  finally show ?thesis .
qed

lemma gpt_signature_bytes: "le_bytes 8 GPT_SIGNATURE = ascii ''EFI PART''"
  unfolding le_bytes_8 GPT_SIGNATURE_def ascii_def by simp

lemma gpth_bytes_fields:
  assumes "length (gpth_disk_guid h) = 16"
  shows "length (gpth_bytes h) = 92"
    and "bytes_at 0 8 (gpth_bytes h) = le_bytes 8 (gpth_signature h)"
    and "bytes_at 12 4 (gpth_bytes h) = le_bytes 4 (gpth_size h)"
    and "bytes_at 16 4 (gpth_bytes h) = le_bytes 4 (gpth_crc32 h)"
    and "bytes_at 24 8 (gpth_bytes h) = le_bytes 8 (gpth_self h)"
    and "bytes_at 32 8 (gpth_bytes h) = le_bytes 8 (gpth_alternate h)"
    and "bytes_at 48 8 (gpth_bytes h) = le_bytes 8 (gpth_last_usable h)"
    and "bytes_at 56 16 (gpth_bytes h) = gpth_disk_guid h"
    and "bytes_at 72 8 (gpth_bytes h) = le_bytes 8 (gpth_first_entry h)"
    and "bytes_at 80 4 (gpth_bytes h) = le_bytes 4 (gpth_entry_num h)"
    and "bytes_at 84 4 (gpth_bytes h) = le_bytes 4 (gpth_entry_size h)"
    and "bytes_at 88 4 (gpth_bytes h) = le_bytes 4 (gpth_entry_crc32 h)"
    and "crc_field_zeroed (gpth_bytes h) = gpth_bytes (h\<lparr>gpth_crc32 := 0\<rparr>)"
  using assms
  by (simp_all add: gpth_bytes_def bytes_at_def crc_field_zeroed_def le_bytes_zero)

lemma gpth_bytes_rest:
  assumes "length (gpth_disk_guid h) = 16"
  shows "take 16 (gpth_bytes h)
           = le_bytes 8 (gpth_signature h) @ le_bytes 4 (gpth_revision h)
             @ le_bytes 4 (gpth_size h)"
    and "bytes_at 20 4 (gpth_bytes h) = le_bytes 4 (gpth_reserved h)"
    and "bytes_at 40 32 (gpth_bytes h)
           = le_bytes 8 (gpth_first_usable h) @ le_bytes 8 (gpth_last_usable h)
             @ gpth_disk_guid h"
    and "drop 80 (gpth_bytes h)
           = le_bytes 4 (gpth_entry_num h) @ le_bytes 4 (gpth_entry_size h)
             @ le_bytes 4 (gpth_entry_crc32 h)"
  using assms
  by (simp_all add: gpth_bytes_def bytes_at_def)

text \<open>The entry array is always 128 entries of 128 bytes.\<close>

lemma length_name_bytes: "length (concat (map (le_bytes 2) us)) = 2 * length us"
  by (induction us) simp_all

lemma length_gpte_bytes:
  "length (gpte_type e) = 16 \<and> length (gpte_guid e) = 16 \<and> length (gpte_name e) = 36 \<Longrightarrow>
   length (gpte_bytes e) = 128"
  by (simp add: gpte_bytes_def length_name_bytes)

lemma length_gpte_array_bytes:
  "\<forall>e\<in>set tbl. length (gpte_bytes e) = 128 \<Longrightarrow>
   length (gpte_array_bytes tbl) = 128 * length tbl"
  by (induction tbl) (simp_all add: gpte_array_bytes_def)

lemma init_utf16_loop_length:
  "init_utf16_loop str bufsize i n buf = Some r \<Longrightarrow> length r = length buf"
proof (induction str bufsize i n buf rule: init_utf16_loop.induct)
  case (1 str bufsize i n buf)
  from "1.prems" show ?case
    by (subst (asm) init_utf16_loop.simps)
       (auto split: if_splits option.splits dest: "1.IH")
qed

lemma gptable_body_entry:
  assumes "gptable_body cfg guid i p st = Inr st'" "part_size p \<noteq> 0"
  shows "\<exists>e nm. gp_gpte st' = (gp_gpte st)[i := e]
           \<and> gpte_type e = part_guid p \<and> gpte_guid e = guid_add_last guid (i + 1)
           \<and> gpte_name e = nm
           \<and> (nm = gpte_name (gp_gpte st ! i)
               \<or> (\<exists>str. init_utf16 str (gpte_name (gp_gpte st ! i))
                      (GPT_ENTRY_NAME_SIZE div 2) = Some nm))"
proof -
  have ov: "\<not> (part_start p \<noteq> 0 \<and> part_start p * 2 < gp_sect st)"
    using assms gptable_body_overlap [of p st cfg guid i] by auto
  define start where "start = (if part_start p \<noteq> 0 then part_start p * 2
                  else if kb_align cfg \<noteq> 0 then round_to_kb cfg (gp_sect st)
                       else gp_sect st)"
  have sp: "\<not> (gpt_last_usable_sector cfg > 0
            \<and> start + part_size p * 2 > gpt_last_usable_sector cfg + 1)"
    using assms gptable_body_out_of_space [OF assms(2) ov start_def, of guid i] by auto
  from assms(1) show ?thesis
    unfolding gptable_body_unfold [OF assms(2) ov start_def sp]
    by (auto split: option.splits prod.splits)
qed

lemma gptable_body_wf:
  assumes "gptable_body cfg guid i p st = Inr st'"
    and "length guid = 16" and "length (part_guid p) = 16"
    and "\<forall>e\<in>set (gp_gpte st).
           length (gpte_type e) = 16 \<and> length (gpte_guid e) = 16 \<and> length (gpte_name e) = 36"
  shows "\<forall>e\<in>set (gp_gpte st').
           length (gpte_type e) = 16 \<and> length (gpte_guid e) = 16 \<and> length (gpte_name e) = 36"
proof (cases "part_size p = 0")
  case True
  with assms(1,4) show ?thesis by (auto simp: gptable_body_skip split: if_splits)
next
  case False
  from gptable_body_entry [OF assms(1) False] obtain e nm where
    u: "gp_gpte st' = (gp_gpte st)[i := e]"
    and e: "gpte_type e = part_guid p" "gpte_guid e = guid_add_last guid (i + 1)"
      "gpte_name e = nm"
    and nm: "nm = gpte_name (gp_gpte st ! i)
               \<or> (\<exists>str. init_utf16 str (gpte_name (gp_gpte st ! i))
                      (GPT_ENTRY_NAME_SIZE div 2) = Some nm)"
    by blast
  show ?thesis
  proof (cases "i < length (gp_gpte st)")
    case False
    with u assms(4) show ?thesis by (simp add: list_update_beyond)
  next
    case True
    then have "gp_gpte st ! i \<in> set (gp_gpte st)" by simp
    with assms(4) have "length (gpte_name (gp_gpte st ! i)) = 36" by blast
    with nm have "length nm = 36"
      by (auto simp: init_utf16_def dest: init_utf16_loop_length)
    with e assms(2,3) have "length (gpte_type e) = 16 \<and> length (gpte_guid e) = 16
        \<and> length (gpte_name e) = 36"
      by (simp add: guid_add_last_def)
    with u assms(4) show ?thesis by (auto dest!: in_set_updateD)
  qed
qed

lemma gptable_loop_wf:
  assumes "gptable_loop cfg guid i ps st = Inr st'"
    and "length guid = 16" and "list_all (\<lambda>p. length (part_guid p) = 16) ps"
    and "\<forall>e\<in>set (gp_gpte st).
           length (gpte_type e) = 16 \<and> length (gpte_guid e) = 16 \<and> length (gpte_name e) = 36"
  shows "\<forall>e\<in>set (gp_gpte st').
           length (gpte_type e) = 16 \<and> length (gpte_guid e) = 16 \<and> length (gpte_name e) = 36"
  using assms(1,3,4)
proof (induction ps arbitrary: i st)
  case Nil
  then show ?case by simp
next
  case (Cons p ps)
  from Cons.prems(1) obtain st1 where b: "gptable_body cfg guid i p st = Inr st1"
    and l: "gptable_loop cfg guid (Suc i) ps st1 = Inr st'"
    by (auto split: sum.splits)
  from Cons.prems(2) have p: "length (part_guid p) = 16"
    and ps: "list_all (\<lambda>p. length (part_guid p) = 16) ps" by simp_all
  from Cons.IH [OF l ps gptable_body_wf [OF b assms(2) p Cons.prems(3)]] show ?case .
qed

lemma gptable_filler_wf:
  assumes "length guid = 16"
    and "\<forall>e\<in>set tbl.
           length (gpte_type e) = 16 \<and> length (gpte_guid e) = 16 \<and> length (gpte_name e) = 36"
  shows "\<forall>e\<in>set (gptable_filler cfg guid ps tbl).
           length (gpte_type e) = 16 \<and> length (gpte_guid e) = 16 \<and> length (gpte_name e) = 36"
proof (cases "GPT_ENTRY_MAX - 1 < length tbl")
  case False
  then show ?thesis using assms(2)
    by (simp add: gptable_filler_def list_update_beyond split: list.splits)
next
  case True
  then have "tbl ! (GPT_ENTRY_MAX - 1) \<in> set tbl" by simp
  with assms(2) have "length (gpte_name (tbl ! (GPT_ENTRY_MAX - 1))) = 36" by blast
  moreover have "length GUID_PARTITION_BIOS_BOOT = 16"
    by (simp add: GUID_PARTITION_BIOS_BOOT_def GUID_INIT_def)
  ultimately show ?thesis using assms
    by (auto simp: gptable_filler_def guid_add_last_def split: list.splits
          dest!: in_set_updateD)
qed

lemma gptable_build_entries_length:
  assumes "gptable_build cfg guid parts = Inr t"
    and "length guid = 16" and "list_all (\<lambda>p. length (part_guid p) = 16) parts"
  shows "length (gpte_array_bytes (tb_gpte t)) = 128 * 128"
proof -
  from gptable_build_entries [OF assms(1)] obtain st where
    l: "gptable_loop cfg guid 0 parts (gptable_init cfg parts) = Inr st"
    and t: "tb_gpte t = gptable_filler cfg guid (gp_parts st) (gp_gpte st)" by blast
  have "\<forall>e\<in>set (gp_gpte (gptable_init cfg parts)).
           length (gpte_type e) = 16 \<and> length (gpte_guid e) = 16 \<and> length (gpte_name e) = 36"
    by (simp add: gptable_init_def zero_gpte_def zero_guid_def GPT_ENTRY_NAME_SIZE_def)
  from gptable_filler_wf [OF assms(2) gptable_loop_wf [OF l assms(2,3) this],
      of cfg "gp_parts st"]
  have w: "\<forall>e\<in>set (tb_gpte t). length (gpte_bytes e) = 128"
    unfolding t by (auto intro: length_gpte_bytes)
  from gptable_loop_frame [OF l]
  have "length (tb_gpte t) = 128"
    unfolding t
    by (simp add: gptable_filler_def gptable_init_def GPT_ENTRY_MAX_def split: list.splits)
  with length_gpte_array_bytes [OF w] show ?thesis by simp
qed

lemma gptable_build_header:
  assumes "gptable_build cfg guid parts = Inr t"
  shows "gpth_crc32 (tb_gpth t)
           = ucast (gpt_crc32 (gpth_bytes ((tb_gpth t)\<lparr>gpth_crc32 := 0\<rparr>)))"
    and "gpth_entry_crc32 (tb_gpth t) = ucast (gpt_crc32 (gpte_array_bytes (tb_gpte t)))"
    and "gpth_self (tb_gpth t) = 1"
    and "gpth_alternate (tb_gpth t) = tb_end t"
    and "gpth_disk_guid (tb_gpth t) = guid"
    and "gpth_first_entry (tb_gpth t) = gpt_first_entry_sector cfg"
    and "gpth_signature (tb_gpth t) = GPT_SIGNATURE"
    and "gpth_size (tb_gpth t) = 92"
    and "gpth_entry_num (tb_gpth t) = 128"
    and "gpth_entry_size (tb_gpth t) = 128"
    and "tb_end t = gpth_last_usable (tb_gpth t) + 33"
  using assms
  by (auto simp: gptable_build_def Let_def GPT_HEADER_SECTOR_def GPT_HEADER_SIZE_def
        GPT_ENTRY_MAX_def GPT_ENTRY_SIZE_def GPT_SIZE_def DISK_SECTOR_SIZE_def
        split: sum.splits option.splits)

lemma gpth_backup_fields:
  "gpth_backup h e =
     h\<lparr>gpth_self := gpth_alternate h, gpth_alternate := gpth_self h,
       gpth_first_entry := e - 32,
       gpth_crc32 := ucast (gpt_crc32 (gpth_bytes
          (h\<lparr>gpth_self := gpth_alternate h, gpth_alternate := gpth_self h,
             gpth_first_entry := e - 32, gpth_crc32 := 0\<rparr>)))\<rparr>"
  by (simp add: gpth_backup_def Let_def GPT_ENTRY_SIZE_def GPT_ENTRY_MAX_def DISK_SECTOR_SIZE_def)

lemma gpth_backup_crc:
  "gpth_crc32 (gpth_backup h e)
     = ucast (gpt_crc32 (gpth_bytes ((gpth_backup h e)\<lparr>gpth_crc32 := 0\<rparr>)))"
  by (simp add: gpth_backup_def Let_def)

lemma header_block_crc:
  assumes "length (gpth_disk_guid h) = 16"
    and "gpth_crc32 h = ucast (gpt_crc32 (gpth_bytes (h\<lparr>gpth_crc32 := 0\<rparr>)))"
  shows "le_word (bytes_at 16 4 (gpth_bytes h))
           = crc32_reference (crc_field_zeroed (gpth_bytes h))"
  using assms(2)
  by (simp only: gpth_bytes_fields [OF assms(1)] le_word_le_bytes_4 gpt_crc32_reference)

lemma header_block_entry_crc:
  assumes "length (gpth_disk_guid h) = 16"
    and "gpth_entry_crc32 h = ucast (gpt_crc32 entries)"
  shows "le_word (bytes_at 88 4 (gpth_bytes h)) = crc32_reference entries"
  using assms(2)
  by (simp only: gpth_bytes_fields [OF assms(1)] le_word_le_bytes_4 gpt_crc32_reference)

lemma gptable_script_primary:
  "Write 512 (gpth_bytes (tb_gpth t)) \<in> set (gptable_primary_script cfg filename signature t)"
  "\<exists>off. Write off (gpte_array_bytes (tb_gpte t))
            \<in> set (gptable_primary_script cfg filename signature t)
         \<and> (\<not> gpt_split_image cfg \<longrightarrow> off = gpt_first_entry_sector cfg * 512)"
  by (auto simp: gptable_primary_script_def Let_def MBR_BOOT_SIGNATURE_OFFSET_def
        DISK_SECTOR_SIZE_def)

lemma gptable_script_alternate:
  "\<exists>pre eo ho zo. gptable_alternate_script cfg filename t =
     pre @ [Write eo (gpte_array_bytes (tb_gpte t)),
            Write ho (gpth_bytes (gpth_backup (tb_gpth t) (tb_end t))),
            Write zo [0x00]]
     \<and> (\<not> gpt_split_image cfg \<longrightarrow>
           pre = [] \<and> ho = tb_end t * 512 \<and> eo = (tb_end t - 32) * 512)
     \<and> (gpt_split_image cfg \<longrightarrow>
           pre = [Open (filename @ ascii ''.end'')] \<and> eo = 0 \<and> ho = 32 * 512)"
proof -
  have "tb_end t * 512 - 16384 = (tb_end t - 32) * 512"
    by (simp add: algebra_simps)
  then show ?thesis
    by (auto simp: gptable_alternate_script_def Let_def DISK_SECTOR_SIZE_def
          GPT_ENTRY_SIZE_def GPT_ENTRY_MAX_def GPT_SIZE_def)
qed

lemma gptable_script_backup:
  assumes "gpt_alternate cfg"
  shows "\<exists>pre eo ho zo. gptable_script cfg filename signature t =
           pre @ [Write eo (gpte_array_bytes (tb_gpte t)),
                  Write ho (gpth_bytes (gpth_backup (tb_gpth t) (tb_end t))),
                  Write zo [0x00]]
         \<and> Write 512 (gpth_bytes (tb_gpth t)) \<in> set pre
         \<and> (\<exists>off. Write off (gpte_array_bytes (tb_gpte t)) \<in> set pre
                \<and> (\<not> gpt_split_image cfg \<longrightarrow> off = gpt_first_entry_sector cfg * 512))
         \<and> (\<not> gpt_split_image cfg \<longrightarrow>
               ho = tb_end t * 512 \<and> eo = (tb_end t - 32) * 512)
         \<and> (gpt_split_image cfg \<longrightarrow>
               Open (filename @ ascii ''.end'') \<in> set pre \<and> eo = 0 \<and> ho = 32 * 512)"
proof -
  from gptable_script_alternate [of cfg filename t] obtain pre eo ho zo where
    a: "gptable_alternate_script cfg filename t =
     pre @ [Write eo (gpte_array_bytes (tb_gpte t)),
            Write ho (gpth_bytes (gpth_backup (tb_gpth t) (tb_end t))),
            Write zo [0x00]]"
    and o: "\<not> gpt_split_image cfg \<longrightarrow> ho = tb_end t * 512 \<and> eo = (tb_end t - 32) * 512"
    and o': "gpt_split_image cfg \<longrightarrow>
           pre = [Open (filename @ ascii ''.end'')] \<and> eo = 0 \<and> ho = 32 * 512"
    by blast
  let ?pre = "gptable_primary_script cfg filename signature t @ pre"
  from a assms have "gptable_script cfg filename signature t =
           ?pre @ [Write eo (gpte_array_bytes (tb_gpte t)),
                  Write ho (gpth_bytes (gpth_backup (tb_gpth t) (tb_end t))),
                  Write zo [0x00]]"
    by (simp add: gptable_script_def)
  moreover from gptable_script_primary [of t cfg filename signature]
  have "Write 512 (gpth_bytes (tb_gpth t)) \<in> set ?pre"
    "\<exists>off. Write off (gpte_array_bytes (tb_gpte t)) \<in> set ?pre
         \<and> (\<not> gpt_split_image cfg \<longrightarrow> off = gpt_first_entry_sector cfg * 512)"
    by auto
  moreover from o' have "gpt_split_image cfg \<longrightarrow>
      Open (filename @ ascii ''.end'') \<in> set ?pre \<and> eo = 0 \<and> ho = 32 * 512" by simp
  ultimately show ?thesis using o by blast
qed

text \<open>
  C4. Whenever \<^verbatim>\<open>gen_gptable\<close> returns 0 (identifiers being 16 bytes, as \<^verbatim>\<open>guid_t\<close> is),
  it has written at byte 512 a block of 92 bytes that starts with \<^verbatim>\<open>EFI PART\<close> and gives
  92 as the header size and 128 entries of 128 bytes, and it has written an entry array of
  \<open>128 * 128\<close> bytes (in a single image at the first-entry sector). The four bytes at offset
  16 of the header block are the reference CRC32 of that block with these four bytes
  zeroed, and the four bytes at offset 88 are the reference CRC32 of the entry array
  written. When the alternate table is enabled, the last three requests write the same
  entry array, a second 92-byte header block and a padding byte, and both equations hold
  for the second header block as well. The reference CRC32 is the standard one: its check
  value is \<open>0xCBF43926\<close>.
\<close>

theorem gpt_crc_consistent:
  assumes "ret (gen_gptable ok cfg filename signature guid parts) = None"
    and "length guid = 16" and "list_all (\<lambda>p. length (part_guid p) = 16) parts"
  shows "\<exists>hb entries.
       Write 512 hb \<in> set (performed (gen_gptable ok cfg filename signature guid parts))
     \<and> (\<exists>off. Write off entries
                 \<in> set (performed (gen_gptable ok cfg filename signature guid parts))
            \<and> (\<not> gpt_split_image cfg \<longrightarrow> off = gpt_first_entry_sector cfg * 512))
     \<and> length hb = 92 \<and> bytes_at 0 8 hb = ascii ''EFI PART''
     \<and> le_word (bytes_at 12 4 hb) = (92 :: u32)
     \<and> le_word (bytes_at 80 4 hb) = (128 :: u32)
     \<and> le_word (bytes_at 84 4 hb) = (128 :: u32)
     \<and> length entries = 128 * 128
     \<and> le_word (bytes_at 16 4 hb) = crc32_reference (crc_field_zeroed hb)
     \<and> le_word (bytes_at 88 4 hb) = crc32_reference entries
     \<and> (gpt_alternate cfg \<longrightarrow>
          (\<exists>hb' pre eo ho zo.
              performed (gen_gptable ok cfg filename signature guid parts)
                = pre @ [Write eo entries, Write ho hb', Write zo [0x00]]
            \<and> length hb' = 92 \<and> bytes_at 0 8 hb' = ascii ''EFI PART''
            \<and> le_word (bytes_at 16 4 hb') = crc32_reference (crc_field_zeroed hb')
            \<and> le_word (bytes_at 88 4 hb') = crc32_reference entries))
     \<and> crc32_reference (ascii ''123456789'') = 0xCBF43926"
proof -
  from gen_gptable_success [OF assms(1)] obtain t where
    t: "gptable_build cfg guid parts = Inr t"
    and p: "performed (gen_gptable ok cfg filename signature guid parts)
         = gptable_script cfg filename signature t" by blast
  note h = gptable_build_header [OF t]
  let ?h = "tb_gpth t"
  let ?hb = "gpth_bytes ?h"
  let ?es = "gpte_array_bytes (tb_gpte t)"
  let ?b = "gpth_backup ?h (tb_end t)"
  have g: "length (gpth_disk_guid ?h) = 16" using h(5) assms(2) by simp
  note f = gpth_bytes_fields [OF g]
  have w1: "Write 512 ?hb \<in> set (gptable_script cfg filename signature t)"
    using gptable_script_primary(1) [of t cfg filename signature]
    by (simp add: gptable_script_def)
  have w2: "\<exists>off. Write off ?es \<in> set (gptable_script cfg filename signature t)
            \<and> (\<not> gpt_split_image cfg \<longrightarrow> off = gpt_first_entry_sector cfg * 512)"
    using gptable_script_primary(2) [of t cfg filename signature]
    by (auto simp: gptable_script_def)
  have s: "bytes_at 0 8 ?hb = ascii ''EFI PART''"
    by (simp only: f h(7) gpt_signature_bytes)
  have n: "le_word (bytes_at 12 4 ?hb) = (92 :: u32)"
    "le_word (bytes_at 80 4 ?hb) = (128 :: u32)"
    "le_word (bytes_at 84 4 ?hb) = (128 :: u32)"
    by (simp_all only: f h(8,9,10) le_word_le_bytes_4)
  note el = gptable_build_entries_length [OF t assms(2,3)]
  note c1 = header_block_crc [OF g h(1)]
  note c2 = header_block_entry_crc [OF g h(2)]
  have alt: "\<exists>hb' pre eo ho zo.
              gptable_script cfg filename signature t
                = pre @ [Write eo ?es, Write ho hb', Write zo [0x00]]
            \<and> length hb' = 92 \<and> bytes_at 0 8 hb' = ascii ''EFI PART''
            \<and> le_word (bytes_at 16 4 hb') = crc32_reference (crc_field_zeroed hb')
            \<and> le_word (bytes_at 88 4 hb') = crc32_reference ?es"
    if a: "gpt_alternate cfg"
  proof -
    from gptable_script_backup [OF a, of filename signature t] obtain pre eo ho zo where
      sc: "gptable_script cfg filename signature t =
           pre @ [Write eo ?es, Write ho (gpth_bytes ?b), Write zo [0x00]]" by blast
    have gb: "length (gpth_disk_guid ?b) = 16" using g by (simp add: gpth_backup_fields)
    note fb = gpth_bytes_fields [OF gb]
    have "gpth_signature ?b = GPT_SIGNATURE" using h(7) by (simp add: gpth_backup_fields)
    then have sb: "bytes_at 0 8 (gpth_bytes ?b) = ascii ''EFI PART''"
      by (simp only: fb gpt_signature_bytes)
    have "gpth_entry_crc32 ?b = ucast (gpt_crc32 ?es)"
      using h(2) by (simp add: gpth_backup_fields)
    note header_block_crc [OF gb gpth_backup_crc] header_block_entry_crc [OF gb this]
    with sc fb(1) sb show ?thesis by blast
  qed
  from w1 w2 f(1) s n el c1 c2 alt crc32_check show ?thesis
    unfolding p by blast
qed

lemma sample_gen_gptable:
  "ret (gen_gptable (\<lambda>_. True) gpt_config (ascii ''img'') default_signature default_guid
          [request 1024 0, request 2048 0]) = None"
proof -
  from sample_gptable_build [of 1] obtain t where
    "gptable_build gpt_config default_guid [request 1024 0, request 2048 0] = Inr t"
    by (auto simp: gpt_config_def)
  from gen_gptable_all_ok [OF this] show ?thesis by simp
qed

lemma sample_guids:
  "length default_guid = 16"
  "list_all (\<lambda>p. length (part_guid p) = 16) [request 1024 0, request 2048 0]"
  by (simp_all add: default_guid_def GUID_INIT_def request_def GUID_PARTITION_LINUX_FS_GUID_def)

theorem gpt_crc_consistent_witness:
  "ret (gen_gptable (\<lambda>_. True) gpt_config (ascii ''img'') default_signature default_guid
          [request 1024 0, request 2048 0]) = None
   \<and> length default_guid = 16
   \<and> list_all (\<lambda>p. length (part_guid p) = 16) [request 1024 0, request 2048 0]
   \<and> gpt_alternate gpt_config \<and> \<not> gpt_split_image gpt_config
   \<and> (\<exists>hb entries hb' pre eo ho zo.
        performed (gen_gptable (\<lambda>_. True) gpt_config (ascii ''img'') default_signature
            default_guid [request 1024 0, request 2048 0])
          = pre @ [Write eo entries, Write ho hb', Write zo [0x00]]
      \<and> Write 512 hb \<in> set (performed (gen_gptable (\<lambda>_. True) gpt_config (ascii ''img'')
            default_signature default_guid [request 1024 0, request 2048 0]))
      \<and> Write (gpt_first_entry_sector gpt_config * 512) entries
           \<in> set (performed (gen_gptable (\<lambda>_. True) gpt_config (ascii ''img'')
                  default_signature default_guid [request 1024 0, request 2048 0]))
      \<and> length hb = 92 \<and> length hb' = 92 \<and> length entries = 128 * 128
      \<and> le_word (bytes_at 16 4 hb) = crc32_reference (crc_field_zeroed hb)
      \<and> le_word (bytes_at 88 4 hb) = crc32_reference entries
      \<and> le_word (bytes_at 16 4 hb') = crc32_reference (crc_field_zeroed hb')
      \<and> le_word (bytes_at 88 4 hb') = crc32_reference entries)"
proof -
  have a: "gpt_alternate gpt_config" "\<not> gpt_split_image gpt_config"
    by (simp_all add: gpt_config_def)
  from gpt_crc_consistent [OF sample_gen_gptable sample_guids] a
    sample_gen_gptable sample_guids
  show ?thesis by blast
qed

subsection \<open>The alternate table\<close>

text \<open>
  C8. When \<^verbatim>\<open>gen_gptable\<close> returns 0 with the alternate table enabled (the disk identifier
  being 16 bytes), its last three requests write the entry array, the same bytes as for
  the primary table, then a 92-byte header block, then a padding byte. The primary header
  block, written at byte 512, holds 1 as its own LBA, the last usable LBA plus 33 as the
  LBA of the other header, the configured first-entry sector and the disk identifier. In
  the alternate header block the LBA of the header itself and that of the other header
  are those of the primary block exchanged, the LBA of the entry array is 32 sectors below
  the alternate header, and the checksum of the header is the reference CRC32 of the
  alternate block with its checksum bytes zeroed; every other byte, the checksum of the
  entry array included, is that of the primary block. In a single image the alternate
  header goes to the sector its own LBA names and the entries to the sector its
  entry-array LBA names; in a split image both go to a file of their own, entries first.
\<close>

theorem backup_header:
  assumes "ret (gen_gptable ok cfg filename signature guid parts) = None"
    and "gpt_alternate cfg" and "length guid = 16"
  shows "\<exists>hb hb' entries pre eo ho zo.
       performed (gen_gptable ok cfg filename signature guid parts)
         = pre @ [Write eo entries, Write ho hb', Write zo [0x00]]
     \<and> Write 512 hb \<in> set pre
     \<and> (\<exists>off. Write off entries \<in> set pre
            \<and> (\<not> gpt_split_image cfg \<longrightarrow> off = gpt_first_entry_sector cfg * 512))
     \<and> length hb = 92 \<and> length hb' = 92
     \<and> bytes_at 0 8 hb = ascii ''EFI PART''
     \<and> bytes_at 56 16 hb = guid
     \<and> le_word (bytes_at 24 8 hb) = (1 :: u64)
     \<and> le_word (bytes_at 32 8 hb) = (le_word (bytes_at 48 8 hb) :: u64) + 33
     \<and> le_word (bytes_at 72 8 hb) = gpt_first_entry_sector cfg
     \<and> (le_word (bytes_at 24 8 hb') :: u64) = le_word (bytes_at 32 8 hb)
     \<and> (le_word (bytes_at 32 8 hb') :: u64) = le_word (bytes_at 24 8 hb)
     \<and> (le_word (bytes_at 72 8 hb') :: u64) = le_word (bytes_at 24 8 hb') - 32
     \<and> le_word (bytes_at 16 4 hb') = crc32_reference (crc_field_zeroed hb')
     \<and> take 16 hb' = take 16 hb
     \<and> bytes_at 20 4 hb' = bytes_at 20 4 hb
     \<and> bytes_at 40 32 hb' = bytes_at 40 32 hb
     \<and> drop 80 hb' = drop 80 hb
     \<and> (\<not> gpt_split_image cfg \<longrightarrow>
           ho = le_word (bytes_at 24 8 hb') * 512 \<and> eo = le_word (bytes_at 72 8 hb') * 512)
     \<and> (gpt_split_image cfg \<longrightarrow>
           Open (filename @ ascii ''.end'') \<in> set pre \<and> eo = 0 \<and> ho = 32 * 512)
     \<and> crc32_reference (ascii ''123456789'') = 0xCBF43926"
proof -
  from gen_gptable_success [OF assms(1)] obtain t where
    t: "gptable_build cfg guid parts = Inr t"
    and p: "performed (gen_gptable ok cfg filename signature guid parts)
         = gptable_script cfg filename signature t" by blast
  note h = gptable_build_header [OF t]
  let ?h = "tb_gpth t"
  let ?hb = "gpth_bytes ?h"
  let ?es = "gpte_array_bytes (tb_gpte t)"
  let ?b = "gpth_backup ?h (tb_end t)"
  let ?bb = "gpth_bytes ?b"
  from gptable_script_backup [OF assms(2), of filename signature t]
  obtain pre eo ho zo where
    s: "gptable_script cfg filename signature t =
           pre @ [Write eo ?es, Write ho ?bb, Write zo [0x00]]"
    and s1: "Write 512 ?hb \<in> set pre"
    and s2: "\<exists>off. Write off ?es \<in> set pre
                \<and> (\<not> gpt_split_image cfg \<longrightarrow> off = gpt_first_entry_sector cfg * 512)"
    and s3: "\<not> gpt_split_image cfg \<longrightarrow> ho = tb_end t * 512 \<and> eo = (tb_end t - 32) * 512"
    and s4: "gpt_split_image cfg \<longrightarrow>
               Open (filename @ ascii ''.end'') \<in> set pre \<and> eo = 0 \<and> ho = 32 * 512"
    by blast
  have g: "length (gpth_disk_guid ?h) = 16" using h(5) assms(3) by simp
  have gb: "length (gpth_disk_guid ?b) = 16" using g by (simp add: gpth_backup_fields)
  note f = gpth_bytes_fields [OF g]
  note fb = gpth_bytes_fields [OF gb]
  note r = gpth_bytes_rest [OF g]
  note rb = gpth_bytes_rest [OF gb]
  have bf: "gpth_self ?b = tb_end t" "gpth_alternate ?b = 1"
    "gpth_first_entry ?b = tb_end t - 32"
    "gpth_signature ?b = gpth_signature ?h" "gpth_revision ?b = gpth_revision ?h"
    "gpth_size ?b = gpth_size ?h" "gpth_reserved ?b = gpth_reserved ?h"
    "gpth_first_usable ?b = gpth_first_usable ?h" "gpth_last_usable ?b = gpth_last_usable ?h"
    "gpth_disk_guid ?b = gpth_disk_guid ?h" "gpth_entry_num ?b = gpth_entry_num ?h"
    "gpth_entry_size ?b = gpth_entry_size ?h" "gpth_entry_crc32 ?b = gpth_entry_crc32 ?h"
    using h(3,4) by (simp_all add: gpth_backup_fields)
  have 1: "bytes_at 0 8 ?hb = ascii ''EFI PART''"
    by (simp only: f h(7) gpt_signature_bytes)
  have 2: "bytes_at 56 16 ?hb = guid" by (simp only: f h(5))
  have 3: "le_word (bytes_at 24 8 ?hb) = (1 :: u64)"
    by (simp only: f h(3) le_word_le_bytes_8)
  have 4: "le_word (bytes_at 32 8 ?hb) = (le_word (bytes_at 48 8 ?hb) :: u64) + 33"
    by (simp only: f h(4) h(11) le_word_le_bytes_8)
  have 5: "le_word (bytes_at 72 8 ?hb) = gpt_first_entry_sector cfg"
    by (simp only: f h(6) le_word_le_bytes_8)
  have 6: "(le_word (bytes_at 24 8 ?bb) :: u64) = le_word (bytes_at 32 8 ?hb)"
    by (simp only: f fb bf h(4) le_word_le_bytes_8)
  have 7: "(le_word (bytes_at 32 8 ?bb) :: u64) = le_word (bytes_at 24 8 ?hb)"
    by (simp only: f fb bf h(3) le_word_le_bytes_8)
  have 8: "(le_word (bytes_at 72 8 ?bb) :: u64) = le_word (bytes_at 24 8 ?bb) - 32"
    by (simp only: fb bf le_word_le_bytes_8)
  note 9 = header_block_crc [OF gb gpth_backup_crc]
  have 10: "take 16 ?bb = take 16 ?hb" "bytes_at 20 4 ?bb = bytes_at 20 4 ?hb"
    "bytes_at 40 32 ?bb = bytes_at 40 32 ?hb" "drop 80 ?bb = drop 80 ?hb"
    by (simp_all only: r rb bf)
  have 11: "\<not> gpt_split_image cfg \<longrightarrow>
           ho = le_word (bytes_at 24 8 ?bb) * 512 \<and> eo = le_word (bytes_at 72 8 ?bb) * 512"
    using s3 by (simp only: fb bf le_word_le_bytes_8)
  show ?thesis
    apply (rule exI [of _ ?hb], rule exI [of _ ?bb], rule exI [of _ ?es])
    apply (rule exI [of _ pre], rule exI [of _ eo], rule exI [of _ ho], rule exI [of _ zo])
    apply (intro conjI)
    using p s apply simp
    using s1 apply simp
    using s2 apply simp
    using f(1) apply simp
    using fb(1) apply simp
    using 1 apply simp
    using 2 apply simp
    using 3 apply simp
    using 4 apply simp
    using 5 apply simp
    using 6 apply simp
    using 7 apply simp
    using 8 apply simp
    using 9 apply simp
    using 10(1) apply simp
    using 10(2) apply simp
    using 10(3) apply simp
    using 10(4) apply simp
    using 11 apply simp
    using s4 apply simp
    using crc32_check apply simp
    done
qed

theorem backup_header_witness:
  "ret (gen_gptable (\<lambda>_. True) gpt_config (ascii ''img'') default_signature default_guid
          [request 1024 0, request 2048 0]) = None
   \<and> gpt_alternate gpt_config \<and> \<not> gpt_split_image gpt_config
   \<and> length default_guid = 16
   \<and> (\<exists>hb hb' entries pre zo.
        performed (gen_gptable (\<lambda>_. True) gpt_config (ascii ''img'') default_signature
            default_guid [request 1024 0, request 2048 0])
         = pre @ [Write (le_word (bytes_at 72 8 hb') * 512) entries,
                  Write (le_word (bytes_at 24 8 hb') * 512) hb',
                  Write zo [0x00]]
      \<and> Write 512 hb \<in> set pre
      \<and> Write (gpt_first_entry_sector gpt_config * 512) entries \<in> set pre
      \<and> bytes_at 56 16 hb = default_guid
      \<and> le_word (bytes_at 24 8 hb) = (1 :: u64)
      \<and> (le_word (bytes_at 24 8 hb') :: u64) = le_word (bytes_at 32 8 hb)
      \<and> (le_word (bytes_at 32 8 hb') :: u64) = le_word (bytes_at 24 8 hb)
      \<and> (le_word (bytes_at 72 8 hb') :: u64) = le_word (bytes_at 24 8 hb') - 32
      \<and> le_word (bytes_at 16 4 hb') = crc32_reference (crc_field_zeroed hb')
      \<and> drop 80 hb' = drop 80 hb)"
proof -
  have a: "gpt_alternate gpt_config" "\<not> gpt_split_image gpt_config"
    by (simp_all add: gpt_config_def)
  from backup_header [OF sample_gen_gptable a(1) sample_guids(1)]
  obtain hb hb' entries pre eo ho zo where
    r: "performed (gen_gptable (\<lambda>_. True) gpt_config (ascii ''img'') default_signature
            default_guid [request 1024 0, request 2048 0])
         = pre @ [Write eo entries, Write ho hb', Write zo [0x00]]"
     "Write 512 hb \<in> set pre"
     "bytes_at 56 16 hb = default_guid"
     "le_word (bytes_at 24 8 hb) = (1 :: u64)"
     "(le_word (bytes_at 24 8 hb') :: u64) = le_word (bytes_at 32 8 hb)"
     "(le_word (bytes_at 32 8 hb') :: u64) = le_word (bytes_at 24 8 hb)"
     "(le_word (bytes_at 72 8 hb') :: u64) = le_word (bytes_at 24 8 hb') - 32"
     "le_word (bytes_at 16 4 hb') = crc32_reference (crc_field_zeroed hb')"
     "drop 80 hb' = drop 80 hb"
     and e: "\<exists>off. Write off entries \<in> set pre
            \<and> (\<not> gpt_split_image gpt_config \<longrightarrow> off = gpt_first_entry_sector gpt_config * 512)"
     and o: "\<not> gpt_split_image gpt_config \<longrightarrow>
           ho = le_word (bytes_at 24 8 hb') * 512 \<and> eo = le_word (bytes_at 72 8 hb') * 512"
    by blast
  from o a(2) have "ho = le_word (bytes_at 24 8 hb') * 512"
    "eo = le_word (bytes_at 72 8 hb') * 512" by blast+
  moreover from e a(2)
  have "Write (gpt_first_entry_sector gpt_config * 512) entries \<in> set pre" by blast
  ultimately show ?thesis using r a sample_gen_gptable sample_guids(1) by blast
qed

subsection \<open>Names\<close>

lemma bit_int_cases:
  fixes a :: int
  assumes "0 \<le> a" "a < 2 ^ 8"
    and "\<And>k. k \<in> {0, 1, 2, 3, 4, 5, 6, 7} \<Longrightarrow> bit a k = P k"
    and "\<And>k. 8 \<le> k \<Longrightarrow> \<not> P k"
  shows "bit a n = P n"
proof (cases "n < 8")
  case True
  then have "n \<in> {0, 1, 2, 3, 4, 5, 6, 7}" by auto
  then show ?thesis by (rule assms(3))
next
  case False
  from assms(1,2) have "take_bit 8 a = a" by (rule take_bit_int_eq_self)
  then have "bit a n = bit (take_bit 8 a) n" by simp
  also have "\<dots> = (n < 8 \<and> bit a n)" by (rule bit_take_bit_iff)
  finally have "\<not> bit a n" using False by simp
  with False assms(4) [of n] show ?thesis by simp
qed

lemma bits_int:
  "bit (0x80 :: int) n \<longleftrightarrow> n = 7"
  "bit (0xC0 :: int) n \<longleftrightarrow> n = 6 \<or> n = 7"
  "bit (0xE0 :: int) n \<longleftrightarrow> 5 \<le> n \<and> n < 8"
  "bit (0xF0 :: int) n \<longleftrightarrow> 4 \<le> n \<and> n < 8"
  "bit (0x1F :: int) n \<longleftrightarrow> n < 5"
  "bit (0x3F :: int) n \<longleftrightarrow> n < 6"
  "bit (0x0F :: int) n \<longleftrightarrow> n < 4"
  "bit (0xF8 :: int) n \<longleftrightarrow> 3 \<le> n \<and> n < 8"
  by (rule bit_int_cases; auto)+

lemma small_bits:
  fixes cp :: u16
  assumes "cp < 2 ^ m"
  shows "bit cp n \<Longrightarrow> n < m"
proof -
  assume b: "bit cp n"
  from less_mask_eq [OF assms] have "cp AND mask m = cp" .
  with b have "bit (cp AND mask m) n" by simp
  then show "n < m" by (simp only: bit_and_iff bit_mask_iff)
qed

lemma ascii_unit:
  fixes cp :: u16
  assumes "cp < 0x80"
  shows "(ucast cp :: u8) AND 0x80 = 0" "(ucast (ucast cp :: u8) :: u16) = cp"
    "cp \<noteq> 0 \<Longrightarrow> (ucast cp :: u8) \<noteq> 0"
proof -
  from assms have "cp < 2 ^ 7" by simp
  note s = small_bits [OF this]
  show "(ucast cp :: u8) AND 0x80 = 0"
    by (rule bit_word_eqI) (auto simp: bit_simps bits_int dest: s)
  show u: "(ucast (ucast cp :: u8) :: u16) = cp"
    by (rule bit_word_eqI) (auto simp: bit_simps dest: s)
  show "cp \<noteq> 0 \<Longrightarrow> (ucast cp :: u8) \<noteq> 0"
    using u by auto
qed

lemma two_byte_unit:
  fixes cp :: u16
  assumes "\<not> cp < 0x80" "cp < 0x800"
  defines "b0 \<equiv> 0xC0 OR ucast (drop_bit 6 cp) :: u8"
    and "b1 \<equiv> 0x80 OR ucast (cp AND 0x3F) :: u8"
  shows "b0 \<noteq> 0" "b0 AND 0x80 \<noteq> 0" "b0 AND 0xE0 = 0xC0"
    "push_bit 6 (ucast (b0 AND 0x1F)) OR ucast (b1 AND 0x3F) = cp"
    "b1 \<noteq> 0"
proof -
  from assms(2) have "cp < 2 ^ 11" by simp
  note s = small_bits [OF this]
  have b7: "bit b0 7" "bit b1 7" unfolding b0_def b1_def by (simp_all add: bit_simps bits_int)
  then show "b0 \<noteq> 0" "b1 \<noteq> 0" by auto
  from b7 have "bit (b0 AND 0x80) 7" by (simp add: bit_simps bits_int)
  then show "b0 AND 0x80 \<noteq> 0" by auto
  show "b0 AND 0xE0 = 0xC0"
    unfolding b0_def by (rule bit_word_eqI) (auto simp: bit_simps bits_int dest!: s)
  show "push_bit 6 (ucast (b0 AND 0x1F)) OR ucast (b1 AND 0x3F) = cp"
    unfolding b0_def b1_def
    by (rule bit_word_eqI) (auto simp: bit_simps bits_int dest: s)
qed


lemma three_byte_unit:
  fixes cp :: u16
  assumes "\<not> cp < 0x800"
  defines "b0 \<equiv> 0xE0 OR ucast (drop_bit 12 cp) :: u8"
    and "b1 \<equiv> 0x80 OR ucast (drop_bit 6 cp AND 0x3F) :: u8"
    and "b2 \<equiv> 0x80 OR ucast (cp AND 0x3F) :: u8"
  shows "b0 \<noteq> 0" "b0 AND 0x80 \<noteq> 0" "b0 AND 0xE0 \<noteq> 0xC0" "b0 AND 0xF0 = 0xE0"
    "push_bit 12 (ucast (b0 AND 0x0F)) OR push_bit 6 (ucast (b1 AND 0x3F))
       OR ucast (b2 AND 0x3F) = cp"
proof -
  note s = bit_imp_le_length [of cp, simplified]
  have b7: "bit b0 7" "bit b0 5" unfolding b0_def by (simp_all add: bit_simps bits_int)
  then show "b0 \<noteq> 0" by auto
  from b7 have "bit (b0 AND 0x80) 7" by (simp add: bit_simps bits_int)
  then show "b0 AND 0x80 \<noteq> 0" by auto
  from b7 have "bit (b0 AND 0xE0) 5" by (simp add: bit_simps bits_int)
  moreover have "\<not> bit (0xC0 :: u8) 5" by (simp add: bits_int)
  ultimately show "b0 AND 0xE0 \<noteq> 0xC0" by metis
  show "b0 AND 0xF0 = 0xE0"
    unfolding b0_def by (rule bit_word_eqI) (auto simp: bit_simps bits_int dest!: s)
  show "push_bit 12 (ucast (b0 AND 0x0F)) OR push_bit 6 (ucast (b1 AND 0x3F))
       OR ucast (b2 AND 0x3F) = cp"
  proof (rule bit_word_eqI)
    fix n
    assume "n < LENGTH(16)"
    then consider (lo) "n < 6" | (mid) k where "n = 6 + k" "k < 6"
      | (hi) k where "n = 12 + k" "k < 4"
    proof -
      assume n: "n < LENGTH(16)"
      assume r: "n < 6 \<Longrightarrow> thesis" "\<And>k. n = 6 + k \<Longrightarrow> k < 6 \<Longrightarrow> thesis"
        "\<And>k. n = 12 + k \<Longrightarrow> k < 4 \<Longrightarrow> thesis"
      show thesis
      proof (cases "n < 6")
        case True
        then show ?thesis by (rule r(1))
      next
        case False
        show ?thesis
        proof (cases "n < 12")
          case True
          with False r(2) [of "n - 6"] show ?thesis by simp
        next
          case False
          with n r(3) [of "n - 12"] show ?thesis by simp
        qed
      qed
    qed
    then show "bit (push_bit 12 (ucast (b0 AND 0x0F)) OR push_bit 6 (ucast (b1 AND 0x3F))
       OR ucast (b2 AND 0x3F) :: u16) n \<longleftrightarrow> bit cp n"
    proof cases
      case lo
      then show ?thesis unfolding b0_def b1_def b2_def
        by (simp add: bit_simps bits_int)
    next
      case mid
      then show ?thesis unfolding b0_def b1_def b2_def
        by (simp add: bit_simps bits_int)
    next
      case hi
      then show ?thesis unfolding b0_def b1_def b2_def
        by (simp add: bit_simps bits_int)
    qed
  qed
qed

lemma init_utf16_loop_done:
  "\<not> i < bufsize \<Longrightarrow> init_utf16_loop str bufsize i n buf = Some buf"
  by (simp add: init_utf16_loop.simps)

lemma init_utf16_loop_nul:
  "i < bufsize \<Longrightarrow> str_at str n = Some 0 \<Longrightarrow>
   init_utf16_loop str bufsize i n buf = Some (buf[i := 0])"
  by (simp add: init_utf16_loop.simps [of str bufsize i n])

lemma init_utf16_loop_1:
  "i < bufsize \<Longrightarrow> str_at str n = Some c \<Longrightarrow> c \<noteq> 0 \<Longrightarrow> c AND 0x80 = 0 \<Longrightarrow>
   init_utf16_loop str bufsize i n buf
     = init_utf16_loop str bufsize (i + 1) (n + 1) (buf[i := ucast c])"
  by (simp add: init_utf16_loop.simps [of str bufsize i n])

lemma init_utf16_loop_2:
  "i < bufsize \<Longrightarrow> str_at str n = Some c \<Longrightarrow> c AND 0x80 \<noteq> 0 \<Longrightarrow> c AND 0xE0 = 0xC0 \<Longrightarrow>
   str_at str (n + 1) = Some c1 \<Longrightarrow>
   init_utf16_loop str bufsize i n buf
     = init_utf16_loop str bufsize (i + 1) (n + 2)
         (buf[i := push_bit 6 (ucast (c AND 0x1F)) OR ucast (c1 AND 0x3F)])"
  by (subst init_utf16_loop.simps) auto

lemma init_utf16_loop_3:
  "i < bufsize \<Longrightarrow> str_at str n = Some c \<Longrightarrow> c AND 0x80 \<noteq> 0 \<Longrightarrow> c AND 0xE0 \<noteq> 0xC0 \<Longrightarrow>
   c AND 0xF0 = 0xE0 \<Longrightarrow> str_at str (n + 1) = Some c1 \<Longrightarrow> str_at str (n + 2) = Some c2 \<Longrightarrow>
   init_utf16_loop str bufsize i n buf
     = init_utf16_loop str bufsize (i + 1) (n + 3)
         (buf[i := push_bit 12 (ucast (c AND 0x0F)) OR push_bit 6 (ucast (c1 AND 0x3F))
                   OR ucast (c2 AND 0x3F)])"
  by (subst init_utf16_loop.simps) auto

lemma init_utf16_loop_stray:
  "i < bufsize \<Longrightarrow> str_at str n = Some c \<Longrightarrow> utf8_stray c \<Longrightarrow>
   init_utf16_loop str bufsize i n buf
     = init_utf16_loop str bufsize (i + 1) (n + 1) (buf[i := 0x3F])"
  by (subst init_utf16_loop.simps) (auto simp: utf8_stray_def)

lemma str_at_mid:
  "k < length bs \<Longrightarrow> str_at (pre @ bs @ rest) (length pre + k) = Some (bs ! k)"
  by (simp add: str_at_def nth_append)

lemma str_at_end: "str_at pre (length pre) = Some 0"
  by (simp add: str_at_def)

lemma init_utf16_loop_piece:
  assumes "piece_ok p" "i < bufsize"
  shows "init_utf16_loop (pre @ piece_bytes p @ rest) bufsize i (length pre) buf
     = init_utf16_loop (pre @ piece_bytes p @ rest) bufsize (i + 1)
         (length pre + length (piece_bytes p)) (buf[i := piece_unit p])"
proof (cases p)
  case (Stray b)
  with assms have s: "utf8_stray b" by simp
  from str_at_mid [of 0 "[b]" pre rest]
  have "str_at (pre @ [b] @ rest) (length pre) = Some b" by simp
  from init_utf16_loop_stray [OF assms(2) this s] Stray show ?thesis by simp
next
  case (CodePoint cp)
  with assms have nz: "cp \<noteq> 0" by simp
  consider (a) "cp < 0x80" | (b) "\<not> cp < 0x80" "cp < 0x800" | (c) "\<not> cp < 0x80" "\<not> cp < 0x800"
    by blast
  then show ?thesis
  proof cases
    case a
    then have e: "piece_bytes p = [ucast cp]" using CodePoint by (simp add: utf8_encode_def)
    from str_at_mid [of 0 "[ucast cp]" pre rest]
    have "str_at (pre @ [ucast cp] @ rest) (length pre) = Some (ucast cp)" by simp
    from init_utf16_loop_1 [OF assms(2) this ascii_unit(3) [OF a nz] ascii_unit(1) [OF a]]
    show ?thesis unfolding e using CodePoint ascii_unit(2) [OF a] by simp
  next
    case b
    let ?b0 = "0xC0 OR ucast (drop_bit 6 cp) :: u8"
    let ?b1 = "0x80 OR ucast (cp AND 0x3F) :: u8"
    from b have e: "piece_bytes p = [?b0, ?b1]" using CodePoint by (simp add: utf8_encode_def)
    from str_at_mid [of 0 "[?b0, ?b1]" pre rest] str_at_mid [of 1 "[?b0, ?b1]" pre rest]
    have s: "str_at (pre @ [?b0, ?b1] @ rest) (length pre) = Some ?b0"
      "str_at (pre @ [?b0, ?b1] @ rest) (length pre + 1) = Some ?b1" by simp_all
    note t = two_byte_unit [OF b]
    from init_utf16_loop_2 [OF assms(2) s(1) t(2) t(3) s(2)]
    show ?thesis unfolding e using CodePoint t(4) by (simp add: numeral_2_eq_2)
  next
    case c
    let ?b0 = "0xE0 OR ucast (drop_bit 12 cp) :: u8"
    let ?b1 = "0x80 OR ucast (drop_bit 6 cp AND 0x3F) :: u8"
    let ?b2 = "0x80 OR ucast (cp AND 0x3F) :: u8"
    from c have e: "piece_bytes p = [?b0, ?b1, ?b2]"
      using CodePoint by (simp add: utf8_encode_def)
    from str_at_mid [of 0 "[?b0, ?b1, ?b2]" pre rest] str_at_mid [of 1 "[?b0, ?b1, ?b2]" pre rest]
      str_at_mid [of 2 "[?b0, ?b1, ?b2]" pre rest]
    have s: "str_at (pre @ [?b0, ?b1, ?b2] @ rest) (length pre) = Some ?b0"
      "str_at (pre @ [?b0, ?b1, ?b2] @ rest) (length pre + 1) = Some ?b1"
      "str_at (pre @ [?b0, ?b1, ?b2] @ rest) (length pre + 2) = Some ?b2" by simp_all
    note t = three_byte_unit [OF c(2)]
    from init_utf16_loop_3 [OF assms(2) s(1) t(2) t(3) t(4) s(2) s(3)]
    show ?thesis unfolding e using CodePoint t(5) by (simp add: numeral_3_eq_3)
  qed
qed


lemma init_utf16_loop_pieces:
  assumes "\<forall>p\<in>set ps. piece_ok p" "length buf = bufsize" "i + length ps \<le> bufsize"
  shows "init_utf16_loop (pre @ concat (map piece_bytes ps)) bufsize i (length pre) buf
     = Some ((take i buf @ map piece_unit ps @ drop (i + length ps) buf)[i + length ps := 0])"
  using assms
proof (induction ps arbitrary: pre i buf)
  case Nil
  show ?case
  proof (cases "i < bufsize")
    case True
    from init_utf16_loop_nul [OF True str_at_end, of pre buf] show ?thesis by simp
  next
    case False
    with Nil have "i = length buf" by simp
    with False show ?thesis by (simp add: init_utf16_loop_done list_update_beyond)
  qed
next
  case (Cons p ps)
  from Cons.prems have ok: "piece_ok p" and oks: "\<forall>p\<in>set ps. piece_ok p"
    and i: "i < bufsize" and il: "i < length buf" and b: "Suc i + length ps \<le> bufsize"
    by simp_all
  let ?str = "pre @ concat (map piece_bytes (p # ps))"
  have str: "?str = pre @ piece_bytes p @ concat (map piece_bytes ps)" by simp
  have str2: "?str = (pre @ piece_bytes p) @ concat (map piece_bytes ps)" by simp
  have "init_utf16_loop ?str bufsize i (length pre) buf
     = init_utf16_loop ?str bufsize (i + 1) (length (pre @ piece_bytes p))
         (buf[i := piece_unit p])"
    unfolding str using init_utf16_loop_piece [OF ok i] by simp
  also have "\<dots> = Some ((take (Suc i) (buf[i := piece_unit p]) @ map piece_unit ps
        @ drop (Suc i + length ps) (buf[i := piece_unit p]))[Suc i + length ps := 0])"
    unfolding str2 using Cons.IH [OF oks _ b, of "buf[i := piece_unit p]" "pre @ piece_bytes p"]
      Cons.prems(2) by simp
  also have "take (Suc i) (buf[i := piece_unit p]) = take i buf @ [piece_unit p]"
    using il by (simp add: take_Suc_conv_app_nth)
  also have "drop (Suc i + length ps) (buf[i := piece_unit p]) = drop (Suc i + length ps) buf"
    by simp
  finally show ?case by simp
qed

lemma init_utf16_pieces:
  assumes "\<forall>p\<in>set ps. piece_ok p" "length ps \<le> n"
  shows "init_utf16 (concat (map piece_bytes ps)) (replicate n 0) n
     = Some (map piece_unit ps @ replicate (n - length ps) 0)"
proof -
  from init_utf16_loop_pieces [OF assms(1), of "replicate n 0" n 0 "[]"] assms(2)
  have "init_utf16 (concat (map piece_bytes ps)) (replicate n 0) n
     = Some ((map piece_unit ps @ replicate (n - length ps) 0)[length ps := 0])"
    by (simp add: init_utf16_def)
  moreover have "(map piece_unit ps @ replicate (n - length ps) 0)[length ps := 0]
     = map piece_unit ps @ replicate (n - length ps) (0 :: u16)"
    by (rule nth_equalityI) (auto simp: nth_list_update nth_append)
  ultimately show ?thesis by simp
qed

lemma stray_four_byte_lead: "c AND 0xF8 = 0xF0 \<Longrightarrow> utf8_stray c"
proof -
  assume h: "c AND 0xF8 = (0xF0 :: u8)"
  have b: "bit c k" if "k \<in> {4, 5, 7}" for k
  proof -
    from that have "bit (0xF0 :: u8) k" by (auto simp: bits_int)
    with h have "bit (c AND 0xF8) k" by simp
    then show ?thesis by (simp add: bit_and_iff)
  qed
  have "bit (c AND 0x80) 7" "bit (c AND 0xE0) 5" "bit (c AND 0xF0) 4"
    using b by (simp_all add: bit_and_iff bits_int)
  moreover have "\<not> bit (0 :: u8) 7" "\<not> bit (0xC0 :: u8) 5" "\<not> bit (0xE0 :: u8) 4"
    by (simp_all add: bits_int)
  ultimately show ?thesis unfolding utf8_stray_def by metis
qed

lemma stray_continuation: "c AND 0xC0 = 0x80 \<Longrightarrow> utf8_stray c"
proof -
  assume h: "c AND 0xC0 = (0x80 :: u8)"
  have "bit (c AND 0xC0) 7" "\<not> bit (c AND 0xC0) 6" unfolding h by (simp_all add: bits_int)
  then have b: "bit c 7" "\<not> bit c 6" by (simp_all add: bit_and_iff bits_int)
  have "bit (c AND 0x80) 7" "\<not> bit (c AND 0xE0) 6" "\<not> bit (c AND 0xF0) 6"
    using b by (simp_all add: bit_and_iff bits_int)
  moreover have "\<not> bit (0 :: u8) 7" "bit (0xC0 :: u8) 6" "bit (0xE0 :: u8) 6"
    by (simp_all add: bits_int)
  ultimately show ?thesis unfolding utf8_stray_def by metis
qed

lemma ascii_byte:
  fixes b :: u8
  assumes "b AND 0x80 = 0"
  shows "(ucast b :: u16) < 0x80" "(ucast (ucast b :: u16) :: u8) = b"
    "b \<noteq> 0 \<Longrightarrow> (ucast b :: u16) \<noteq> 0"
proof -
  have n7: "\<not> bit b 7"
  proof
    assume "bit b 7"
    then have "bit (b AND 0x80) 7" by (simp add: bit_and_iff bits_int)
    with assms show False by simp
  qed
  have lt: "n < 7" if "bit b n" for n
    using that n7 bit_imp_le_length [of b n] by (cases "n = 7") auto
  have "ucast b AND mask 7 = (ucast b :: u16)"
    by (rule bit_word_eqI) (auto simp: bit_simps dest: lt)
  moreover have "(ucast b :: u16) AND mask 7 < 2 ^ 7"
    by (rule and_mask_less') simp
  ultimately have "(ucast b :: u16) < 2 ^ 7" by simp
  then show "(ucast b :: u16) < 0x80" by simp
  show u: "(ucast (ucast b :: u16) :: u8) = b"
    by (rule bit_word_eqI) (auto simp: bit_simps)
  show "b \<noteq> 0 \<Longrightarrow> (ucast b :: u16) \<noteq> 0" using u by auto
qed


lemma ascii_pieces:
  assumes "\<forall>b\<in>set s. b \<noteq> 0 \<and> b AND 0x80 = 0"
  shows "concat (map piece_bytes (map (\<lambda>b. CodePoint (ucast b)) s)) = s"
    and "\<forall>p\<in>set (map (\<lambda>b. CodePoint (ucast b)) s). piece_ok p"
    and "map piece_unit (map (\<lambda>b. CodePoint (ucast b)) s) = map ucast s"
    and "\<forall>u\<in>set (map ucast s :: u16 list). u \<noteq> 0"
    and "map ucast (map ucast s :: u16 list) = s"
  using assms
  by (induction s) (simp_all add: utf8_encode_def ascii_byte)

lemma utf16_ascii_roundtrip:
  assumes "\<forall>b\<in>set s. b \<noteq> 0 \<and> b AND 0x80 = 0" "length s \<le> n"
  shows "\<exists>units. init_utf16 s (replicate n 0) n = Some units \<and> utf16_decode_ascii units = s"
proof -
  note a = ascii_pieces [OF assms(1)]
  let ?ps = "map (\<lambda>b. CodePoint (ucast b)) s"
  from init_utf16_pieces [OF a(2), of n] assms(2) a(1,3)
  have e: "init_utf16 s (replicate n 0) n
      = Some (map ucast s @ replicate (n - length s) 0)" by simp
  have "takeWhile (\<lambda>u. u \<noteq> 0) (map ucast s @ replicate (n - length s) (0 :: u16))
      = map ucast s @ takeWhile (\<lambda>u. u \<noteq> 0) (replicate (n - length s) (0 :: u16))"
    by (rule takeWhile_append2) (use a(4) in blast)
  also have "takeWhile (\<lambda>u. u \<noteq> 0) (replicate (n - length s) (0 :: u16)) = []"
    by (cases "n - length s") simp_all
  finally have "takeWhile (\<lambda>u. u \<noteq> 0)
      (map ucast s @ replicate (n - length s) (0 :: u16)) = map ucast s" by simp
  with a(5) have "utf16_decode_ascii (map ucast s @ replicate (n - length s) 0) = s"
    by (simp add: utf16_decode_ascii_def)
  with e show ?thesis by blast
qed

text \<open>
  C5. \<^verbatim>\<open>init_utf16\<close> handles 1-, 2- and 3-byte sequences and replaces every other byte:
  wherever the loop stands at a byte that is none of NUL, \<open>0xxxxxxx\<close>, \<open>110xxxxx\<close>,
  \<open>1110xxxx\<close> (the lead byte \<open>11110xxx\<close> of a 4-byte sequence is such a byte), it stores
  the one code unit \<open>0x3F\<close>, a question mark, and goes on at the next unit and the next
  byte. So for a name that is a sequence of non-zero code points below \<open>2 ^ 16\<close> in UTF-8
  and of such stray bytes, at most as many as the buffer has units, a zeroed buffer
  receives, in order, the code point of each encoded character and one question mark for
  each stray byte, followed by zeros: no byte after a stray one is skipped or merged. An
  ASCII name that fits the buffer is read back unchanged from the code units before the
  first zero. (\<^verbatim>\<open>gen_gptable\<close> calls it with the 36 zeroed units of a fresh entry.)
\<close>

theorem utf16_name_encoding:
  "(\<forall>str bufsize i n buf c.
       i < bufsize \<and> str_at str n = Some c \<and> utf8_stray c \<longrightarrow>
       init_utf16_loop str bufsize i n buf
         = init_utf16_loop str bufsize (i + 1) (n + 1) (buf[i := 0x3F]))
   \<and> (\<forall>c. c AND 0xF8 = 0xF0 \<longrightarrow> utf8_stray c)
   \<and> (\<forall>ps n. (\<forall>p\<in>set ps. piece_ok p) \<and> length ps \<le> n \<longrightarrow>
         init_utf16 (concat (map piece_bytes ps)) (replicate n 0) n
           = Some (map piece_unit ps @ replicate (n - length ps) 0))
   \<and> (\<forall>s n. (\<forall>b\<in>set s. b \<noteq> 0 \<and> b AND 0x80 = 0) \<and> length s \<le> n \<longrightarrow>
         (\<exists>units. init_utf16 s (replicate n 0) n = Some units
            \<and> utf16_decode_ascii units = s))"
proof (intro conjI allI impI)
  fix str :: "u8 list" and bufsize i n :: nat and buf :: "u16 list" and c :: u8
  assume "i < bufsize \<and> str_at str n = Some c \<and> utf8_stray c"
  then show "init_utf16_loop str bufsize i n buf
         = init_utf16_loop str bufsize (i + 1) (n + 1) (buf[i := 0x3F])"
    using init_utf16_loop_stray [of i bufsize str n c buf] by blast
next
  fix c :: u8
  assume "c AND 0xF8 = 0xF0"
  then show "utf8_stray c" by (rule stray_four_byte_lead)
next
  fix ps :: "utf8_piece list" and n :: nat
  assume "(\<forall>p\<in>set ps. piece_ok p) \<and> length ps \<le> n"
  then show "init_utf16 (concat (map piece_bytes ps)) (replicate n 0) n
           = Some (map piece_unit ps @ replicate (n - length ps) 0)"
    using init_utf16_pieces [of ps n] by blast
next
  fix s :: "u8 list" and n :: nat
  assume "(\<forall>b\<in>set s. b \<noteq> 0 \<and> b AND 0x80 = 0) \<and> length s \<le> n"
  then show "\<exists>units. init_utf16 s (replicate n 0) n = Some units
            \<and> utf16_decode_ascii units = s"
    using utf16_ascii_roundtrip [of s n] by blast
qed

theorem utf16_name_encoding_witness:
  "(0 :: nat) < 36 \<and> str_at [0xF0, 0x9F, 0x98, 0x80, 0x7A] 0 = Some 0xF0
   \<and> (0xF0 :: u8) AND 0xF8 = 0xF0 \<and> utf8_stray 0xF0
   \<and> init_utf16_loop [0xF0, 0x9F, 0x98, 0x80, 0x7A] 36 0 0 (replicate 36 0)
      = init_utf16_loop [0xF0, 0x9F, 0x98, 0x80, 0x7A] 36 (0 + 1) (0 + 1)
          ((replicate 36 0)[0 := 0x3F])
   \<and> list_all piece_ok
        [CodePoint 0x61, CodePoint 0xE9, CodePoint 0x20AC, Stray 0xF0, Stray 0x9F,
         Stray 0x98, Stray 0x80, CodePoint 0x7A]
   \<and> concat (map piece_bytes
        [CodePoint 0x61, CodePoint 0xE9, CodePoint 0x20AC, Stray 0xF0, Stray 0x9F,
         Stray 0x98, Stray 0x80, CodePoint 0x7A])
      = [0x61, 0xC3, 0xA9, 0xE2, 0x82, 0xAC, 0xF0, 0x9F, 0x98, 0x80, 0x7A]
   \<and> init_utf16 [0x61, 0xC3, 0xA9, 0xE2, 0x82, 0xAC, 0xF0, 0x9F, 0x98, 0x80, 0x7A]
        (replicate 36 0) 36
      = Some ([0x61, 0xE9, 0x20AC, 0x3F, 0x3F, 0x3F, 0x3F, 0x7A] @ replicate 28 0)
   \<and> list_all (\<lambda>b. b \<noteq> 0 \<and> b AND 0x80 = 0) (ascii ''rootfs'')
   \<and> (\<exists>units. init_utf16 (ascii ''rootfs'') (replicate 36 0) 36 = Some units
          \<and> utf16_decode_ascii units = ascii ''rootfs'')"
proof -
  let ?ps = "[CodePoint 0x61, CodePoint 0xE9, CodePoint 0x20AC, Stray 0xF0, Stray 0x9F,
                 Stray 0x98, Stray 0x80, CodePoint 0x7A]"
  note T = utf16_name_encoding
  have s: "(0 :: nat) < 36" "str_at [0xF0, 0x9F, 0x98, 0x80, 0x7A] 0 = Some 0xF0"
    "(0xF0 :: u8) AND 0xF8 = 0xF0"
    by (simp_all add: str_at_def)
  from T s(3) have st: "utf8_stray 0xF0" by blast
  from T s(1,2) st
  have 1: "init_utf16_loop [0xF0, 0x9F, 0x98, 0x80, 0x7A] 36 0 0 (replicate 36 0)
      = init_utf16_loop [0xF0, 0x9F, 0x98, 0x80, 0x7A] 36 (0 + 1) (0 + 1)
          ((replicate 36 0)[0 := 0x3F])" by blast
  have ok: "\<forall>p\<in>set ?ps. piece_ok p" by (simp add: utf8_stray_def)
  have enc: "concat (map piece_bytes ?ps)
      = [0x61, 0xC3, 0xA9, 0xE2, 0x82, 0xAC, 0xF0, 0x9F, 0x98, 0x80, 0x7A]"
    by (simp add: utf8_encode_def)
  have l: "length ?ps \<le> 36" by simp
  from T ok l have "init_utf16 (concat (map piece_bytes ?ps)) (replicate 36 0) 36
           = Some (map piece_unit ?ps @ replicate (36 - length ?ps) 0)" by blast
  then have 2: "init_utf16 [0x61, 0xC3, 0xA9, 0xE2, 0x82, 0xAC, 0xF0, 0x9F, 0x98, 0x80, 0x7A]
        (replicate 36 0) 36
      = Some ([0x61, 0xE9, 0x20AC, 0x3F, 0x3F, 0x3F, 0x3F, 0x7A] @ replicate 28 0)"
    unfolding enc by simp
  have a: "\<forall>b\<in>set (ascii ''rootfs''). b \<noteq> 0 \<and> b AND 0x80 = 0"
    by (simp add: ascii_def)
  have al: "length (ascii ''rootfs'') \<le> 36" by (simp add: ascii_def)
  from T a al have 3: "\<exists>units. init_utf16 (ascii ''rootfs'') (replicate 36 0) 36 = Some units
          \<and> utf16_decode_ascii units = ascii ''rootfs''" by blast
  from ok have ok': "list_all piece_ok ?ps" by (simp only: list_all_iff)
  from a have a': "list_all (\<lambda>b. b \<noteq> 0 \<and> b AND 0x80 = 0) (ascii ''rootfs'')"
    by (simp only: list_all_iff)
  from s st 1 ok' enc 2 a' 3 show ?thesis by blast
qed

subsection \<open>Hybrid MBR entries\<close>

text \<open>
  What the hybrid branch does to the protective MBR, for any geometry: the type, start
  and length go to slot \<^verbatim>\<open>pmbr\<close>, both CHS triples go to slot 1, and when \<^verbatim>\<open>pmbr\<close> is
  not 1 the CHS fields of slot \<^verbatim>\<open>pmbr\<close> are left as they were. With all four slots taken
  the request is not mirrored.
\<close>

lemma gptable_hybrid_chs_slot:
  assumes "gptable_hybrid cfg i p start sect (tbl, k) = Some (tbl', k')"
    "part_hybrid p \<noteq> 0" "k < MBR_ENTRY_MAX" "length tbl = MBR_ENTRY_MAX"
  shows "k' = k + 1"
    and "to_chs cfg start = Some (pte_chs_start (tbl' ! 1))"
    and "to_chs cfg (sect - 1) = Some (pte_chs_end (tbl' ! 1))"
    and "pte_start (tbl' ! k) = ucast start"
    and "pte_length (tbl' ! k) = ucast (sect - start)"
    and "pte_type (tbl' ! k) = ucast (part_type p)"
    and "k \<noteq> 1 \<Longrightarrow> pte_chs_start (tbl' ! k) = pte_chs_start (tbl ! k)"
    and "k \<noteq> 1 \<Longrightarrow> pte_chs_end (tbl' ! k) = pte_chs_end (tbl ! k)"
  using assms
  by (auto simp: gptable_hybrid_def Let_def MBR_ENTRY_MAX_def nth_list_update
        split: option.splits)

lemma gptable_hybrid_full:
  "\<not> k < MBR_ENTRY_MAX \<Longrightarrow> gptable_hybrid cfg i p start sect (tbl, k) = Some (tbl, k)"
  by (simp add: gptable_hybrid_def)

text \<open>
  C7. \<^verbatim>\<open>ptgen -g -H -p 1024 -H -p 2048\<close>: two hybrid partitions, at sectors 34 to 2081
  and 2082 to 6177. After the loop, MBR slot 1 has the type, active byte, start and
  length of the first partition and slot 2 those of the second, but the CHS fields of
  slot 1 are those of the second partition's range and the CHS fields of slot 2 are
  still zero: both calls of \<^verbatim>\<open>to_chs\<close> in the hybrid branch write to \<^verbatim>\<open>pte[1]\<close>.
\<close>

theorem hybrid_chs_written_to_slot_1:
  "map_sum id gp_pte
     (gptable_loop gpt_config default_guid 0 [hybrid_request 1024 0, hybrid_request 2048 0]
        (gptable_init gpt_config [hybrid_request 1024 0, hybrid_request 2048 0]))
   = Inr [zero_pte,
          \<lparr>pte_active = 0x80, pte_chs_start = [33, 4, 0], pte_type = 0x83,
           pte_chs_end = [98, 4, 0], pte_start = 34, pte_length = 2048\<rparr>,
          \<lparr>pte_active = 0, pte_chs_start = [0, 0, 0], pte_type = 0x83,
           pte_chs_end = [0, 0, 0], pte_start = 2082, pte_length = 4096\<rparr>,
          zero_pte]
   \<and> to_chs gpt_config 34 = Some [0, 35, 0]
   \<and> to_chs gpt_config 2081 = Some [33, 3, 0]
   \<and> to_chs gpt_config 2082 = Some [33, 4, 0]
   \<and> to_chs gpt_config 6177 = Some [98, 4, 0]"
  by code_simp

end
